theory Spec2Isabelle
  imports Main "HOL-Library.AList" "HOL-Library.Product_Lexorder"
begin

section \<open>Python strings\<close>

text \<open>
  The script \<^verbatim>\<open>scripts/troubleshooting.py\<close> works on Python \<^verbatim>\<open>str\<close> values. They are
  modelled as \<^typ>\<open>string\<close>, one \<^typ>\<open>char\<close> per code point below 256 (device output is
  ASCII). The string methods the script calls are written out below with Python's
  behaviour on that range.
\<close>

definition isspace :: "char \<Rightarrow> bool" where
  \<comment> \<open>\<^verbatim>\<open>str.isspace\<close> on one character: TAB, LF, VT, FF, CR, FS, GS, RS, US, space, NEL, NBSP.\<close>
  "isspace c = (c \<in> set [CHR 0x09, CHR 0x0A, CHR 0x0B, CHR 0x0C, CHR 0x0D,
                          CHR 0x1C, CHR 0x1D, CHR 0x1E, CHR 0x1F, CHR '' '', CHR 0x85, CHR 0xA0])"

definition is_linebreak :: "char \<Rightarrow> bool" where
  \<comment> \<open>the line boundaries of \<^verbatim>\<open>str.splitlines\<close>: LF, VT, FF, CR, FS, GS, RS, NEL.\<close>
  "is_linebreak c = (c \<in> set [CHR 0x0A, CHR 0x0B, CHR 0x0C, CHR 0x0D,
                               CHR 0x1C, CHR 0x1D, CHR 0x1E, CHR 0x85])"

definition startswith :: "string \<Rightarrow> string \<Rightarrow> bool" where
  \<comment> \<open>\<^verbatim>\<open>s.startswith(p)\<close>\<close>
  "startswith s p = (take (length p) s = p)"

fun contains :: "string \<Rightarrow> string \<Rightarrow> bool" where
  \<comment> \<open>\<^verbatim>\<open>sub in s\<close>, written \<open>contains s sub\<close>\<close>
  "contains [] sub = (sub = [])"
| "contains (c # cs) sub = (startswith (c # cs) sub \<or> contains cs sub)"

definition strip :: "string \<Rightarrow> string" where
  \<comment> \<open>\<^verbatim>\<open>s.strip()\<close>\<close>
  "strip s = rev (dropWhile isspace (rev (dropWhile isspace s)))"

fun splitlines_from :: "string \<Rightarrow> string \<Rightarrow> string list" where
  "splitlines_from cur [] = (if cur = [] then [] else [cur])"
| "splitlines_from cur (c # cs) =
     (if c = CHR 0x0D then
        (case cs of
           [] \<Rightarrow> [cur]
         | d # ds \<Rightarrow> if d = CHR 0x0A then cur # splitlines_from [] ds
                    else cur # splitlines_from [] (d # ds))
      else if is_linebreak c then cur # splitlines_from [] cs
      else splitlines_from (cur @ [c]) cs)"

definition splitlines :: "string \<Rightarrow> string list" where
  \<comment> \<open>\<^verbatim>\<open>s.splitlines()\<close>: CR LF is one boundary; no empty last line.\<close>
  "splitlines s = splitlines_from [] s"

fun split_from :: "string \<Rightarrow> string \<Rightarrow> string list" where
  "split_from cur [] = (if cur = [] then [] else [cur])"
| "split_from cur (c # cs) =
     (if isspace c then (if cur = [] then split_from [] cs else cur # split_from [] cs)
      else split_from (cur @ [c]) cs)"

definition split :: "string \<Rightarrow> string list" where
  \<comment> \<open>\<^verbatim>\<open>s.split()\<close>: the maximal runs of non-whitespace characters.\<close>
  "split s = split_from [] s"

function split_sep_from :: "string \<Rightarrow> string \<Rightarrow> string \<Rightarrow> string list" where
  "split_sep_from sep cur [] = [cur]"
| "split_sep_from sep cur (c # cs) =
     (if sep \<noteq> [] \<and> startswith (c # cs) sep
      then cur # split_sep_from sep [] (drop (length sep) (c # cs))
      else split_sep_from sep (cur @ [c]) cs)"
  by pat_completeness auto
termination
  by (relation "measure (\<lambda>(sep, cur, s). length s)") auto

definition split_sep :: "string \<Rightarrow> string \<Rightarrow> string list" where
  \<comment> \<open>\<^verbatim>\<open>s.split(sep)\<close> for a non-empty separator (the script only passes \<^verbatim>\<open>", "\<close>).\<close>
  "split_sep s sep = split_sep_from sep [] s"

definition is_digit :: "char \<Rightarrow> bool" where
  "is_digit c = (c \<in> set ''0123456789'')"

definition digit_val :: "char \<Rightarrow> nat" where
  "digit_val c = of_char c - 48"

fun digits_value :: "nat \<Rightarrow> string \<Rightarrow> nat option" where
  "digits_value acc [] = Some acc"
| "digits_value acc (c # cs) =
     (if is_digit c then digits_value (10 * acc + digit_val c) cs
      else if c = CHR ''_'' then
        (case cs of
           [] \<Rightarrow> None
         | d # ds \<Rightarrow> if is_digit d then digits_value acc (d # ds) else None)
      else None)"

datatype exn =
    IndexError
  | ValueError string
  | UnboundLocalError string
  | Raised string

definition py_int :: "string \<Rightarrow> exn + int" where
  \<comment> \<open>\<^verbatim>\<open>int(s)\<close>, base 10: surrounding whitespace, one optional sign, decimal digits with
      single underscores between them; anything else raises \<^verbatim>\<open>ValueError\<close>. (The interpreter's
      limit on the number of digits is not modelled.)\<close>
  "py_int s =
     (let t = strip s;
          neg = startswith t ''-'';
          body = (if startswith t ''-'' \<or> startswith t ''+'' then drop 1 t else t)
      in case body of
           [] \<Rightarrow> Inl (ValueError s)
         | c # _ \<Rightarrow>
             if is_digit c then
               (case digits_value 0 body of
                  None \<Rightarrow> Inl (ValueError s)
                | Some n \<Rightarrow> Inr (if neg then - int n else int n))
             else Inl (ValueError s))"

definition join :: "string \<Rightarrow> string list \<Rightarrow> string" where
  \<comment> \<open>\<^verbatim>\<open>sep.join(xs)\<close>\<close>
  "join sep xs = (case xs of [] \<Rightarrow> [] | x # r \<Rightarrow> x @ concat (map (\<lambda>y. sep @ y) r))"

section \<open>Configuration normalisation and rollback commands\<close>

definition normalize_config :: "string \<Rightarrow> string list" where
  \<comment> \<open>\<^verbatim>\<open>[line.strip() for line in config.splitlines() if line.strip()]\<close>\<close>
  "normalize_config config = map strip (filter (\<lambda>line. strip line \<noteq> []) (splitlines config))"

type_synonym contextual_command = "string option \<times> string"

fun parse_contextual_loop :: "string option \<Rightarrow> string list \<Rightarrow> contextual_command list" where
  \<comment> \<open>the \<^verbatim>\<open>for line in diff_lines\<close> loop of \<^verbatim>\<open>parse_contextual_commands\<close>; the first
      argument is \<^verbatim>\<open>current_context\<close>, the result the commands appended from here on.\<close>
  "parse_contextual_loop current_context [] = []"
| "parse_contextual_loop current_context (line # rest) =
     (if startswith line ''+'' \<and> \<not> startswith line ''+++'' then
        (let command = strip (drop 1 line) in
         if command \<noteq> [] \<and> \<not> startswith command ''!'' then
           (case current_context of
              None \<Rightarrow> (None, ''no '' @ command)
            | Some c \<Rightarrow> if c \<noteq> [] then (Some c, ''no '' @ command)
                        else (None, ''no '' @ command))
           # parse_contextual_loop current_context rest
         else parse_contextual_loop current_context rest)
      else if \<not> startswith line ''-'' \<and> \<not> startswith line ''@'' \<and> \<not> startswith line ''+'' then
        (let stripped_line = strip line in
         if startswith stripped_line ''interface'' \<or> startswith stripped_line ''router''
         then parse_contextual_loop (Some stripped_line) rest
         else parse_contextual_loop current_context rest)
      else parse_contextual_loop current_context rest)"

definition parse_contextual_commands :: "string list \<Rightarrow> contextual_command list" where
  "parse_contextual_commands diff_lines = parse_contextual_loop None diff_lines"

text \<open>
  The words of the specification about one line of a diff: a line is \<^emph>\<open>added\<close> when it
  starts with \<^verbatim>\<open>+\<close> and is not a \<^verbatim>\<open>+++\<close> file header; it \<^emph>\<open>sets the context\<close> when it is
  neither added, removed (\<^verbatim>\<open>-\<close>) nor a hunk header (\<^verbatim>\<open>@\<close>) and its stripped text starts
  with \<^verbatim>\<open>interface\<close> or \<^verbatim>\<open>router\<close>. \<open>last_context\<close> is the most recent such line of a
  prefix of the diff.
\<close>

definition is_added :: "string \<Rightarrow> bool" where
  "is_added line = (startswith line ''+'' \<and> \<not> startswith line ''+++'')"

definition is_unchanged :: "string \<Rightarrow> bool" where
  "is_unchanged line =
     (\<not> startswith line ''-'' \<and> \<not> startswith line ''@'' \<and> \<not> startswith line ''+'')"

definition sets_context :: "string \<Rightarrow> bool" where
  "sets_context line =
     (is_unchanged line \<and>
      (startswith (strip line) ''interface'' \<or> startswith (strip line) ''router''))"

definition last_context :: "string list \<Rightarrow> string option" where
  "last_context pre =
     (if filter sets_context pre = [] then None
      else Some (strip (last (filter sets_context pre))))"

definition context_after :: "string option \<Rightarrow> string list \<Rightarrow> string option" where
  \<comment> \<open>\<^verbatim>\<open>current_context\<close> after the loop has read \<open>pre\<close>, having started with \<open>ctx\<close>\<close>
  "context_after ctx pre = (case last_context pre of None \<Rightarrow> ctx | Some c \<Rightarrow> Some c)"

section \<open>The line diff\<close>

text \<open>
  \<^verbatim>\<open>compare_configs\<close> computes the diff with the standard library:
  \<^verbatim>\<open>difflib.unified_diff(golden, current, fromfile=..., tofile=..., lineterm="")\<close>, with the
  default three lines of context. The functions of CPython's \<^verbatim>\<open>Lib/difflib.py\<close> that this
  call runs are modelled here as they are written there, for a \<^verbatim>\<open>SequenceMatcher\<close> built
  with \<^verbatim>\<open>isjunk=None\<close> and \<^verbatim>\<open>autojunk=True\<close>: \<^verbatim>\<open>__chain_b\<close> (\<open>b2j\<close>, \<open>popular\<close>),
  \<^verbatim>\<open>find_longest_match\<close>, \<^verbatim>\<open>get_matching_blocks\<close>, \<^verbatim>\<open>get_opcodes\<close>,
  \<^verbatim>\<open>get_grouped_opcodes\<close>, \<^verbatim>\<open>_format_range_unified\<close> and \<^verbatim>\<open>unified_diff\<close>. Indices are
  natural numbers; \<open>i + 1 - k\<close> stands for Python's \<^verbatim>\<open>i-k+1\<close>, which is never negative
  there (lemma \<open>match_row_good\<close>).
\<close>

definition popular :: "'a list \<Rightarrow> 'a \<Rightarrow> bool" where
  \<comment> \<open>\<^verbatim>\<open>elt in self.bpopular\<close>: with at least 200 elements, one that occurs more than
      \<^verbatim>\<open>n // 100 + 1\<close> times\<close>
  "popular b elt = (length b \<ge> 200 \<and> count_list b elt > length b div 100 + 1)"

definition b2j :: "'a list \<Rightarrow> 'a \<Rightarrow> nat list" where
  \<comment> \<open>\<^verbatim>\<open>self.b2j.get(elt, [])\<close>: the indices of \<open>elt\<close> in \<open>b\<close>, ascending; none for a popular
      element\<close>
  "b2j b elt = (if popular b elt then [] else filter (\<lambda>j. b ! j = elt) [0..<length b])"

definition isbjunk :: "'a \<Rightarrow> bool" where
  \<comment> \<open>\<^verbatim>\<open>self.bjunk.__contains__\<close>: the junk set is empty, no \<^verbatim>\<open>isjunk\<close> is given\<close>
  "isbjunk elt = False"

type_synonym match = "nat \<times> nat \<times> nat"

text \<open>
  \<open>match_row\<close> is the inner loop \<^verbatim>\<open>for j in b2j.get(a[i], nothing)\<close> of
  \<^verbatim>\<open>find_longest_match\<close>, on \<^verbatim>\<open>newj2len\<close> and \<^verbatim>\<open>(besti, bestj, bestsize)\<close>; \<open>match_rows\<close>
  is the loop \<^verbatim>\<open>for i in range(alo, ahi)\<close>; \<open>extend_left\<close> and \<open>extend_right\<close> are the
  \<^verbatim>\<open>while\<close> loops that extend the match at both ends, first over elements that are not
  junk, then over junk.
\<close>

fun match_row ::
  "nat \<Rightarrow> nat \<Rightarrow> nat \<Rightarrow> (nat \<rightharpoonup> nat) \<Rightarrow> nat list \<Rightarrow> (nat \<rightharpoonup> nat) \<times> match
     \<Rightarrow> (nat \<rightharpoonup> nat) \<times> match" where
  "match_row i blo bhi j2len [] (newj2len, best) = (newj2len, best)"
| "match_row i blo bhi j2len (j # js) (newj2len, (besti, bestj, bestsize)) =
     (if j < blo then match_row i blo bhi j2len js (newj2len, (besti, bestj, bestsize))
      else if j \<ge> bhi then (newj2len, (besti, bestj, bestsize))
      else
        (let k = (if j = 0 then 0 else case j2len (j - 1) of None \<Rightarrow> 0 | Some l \<Rightarrow> l) + 1 in
         match_row i blo bhi j2len js
           (newj2len(j \<mapsto> k),
            if k > bestsize then (i + 1 - k, j + 1 - k, k) else (besti, bestj, bestsize))))"

fun match_rows ::
  "'a list \<Rightarrow> 'a list \<Rightarrow> nat \<Rightarrow> nat \<Rightarrow> nat list \<Rightarrow> (nat \<rightharpoonup> nat) \<times> match \<Rightarrow> match" where
  "match_rows a b blo bhi [] (j2len, best) = best"
| "match_rows a b blo bhi (i # rest) (j2len, best) =
     match_rows a b blo bhi rest (match_row i blo bhi j2len (b2j b (a ! i)) (Map.empty, best))"

function extend_left ::
  "'a list \<Rightarrow> 'a list \<Rightarrow> nat \<Rightarrow> nat \<Rightarrow> ('a \<Rightarrow> bool) \<Rightarrow> match \<Rightarrow> match" where
  "extend_left a b alo blo ok (besti, bestj, bestsize) =
     (if besti > alo \<and> bestj > blo \<and> ok (b ! (bestj - 1)) \<and> a ! (besti - 1) = b ! (bestj - 1)
      then extend_left a b alo blo ok (besti - 1, bestj - 1, bestsize + 1)
      else (besti, bestj, bestsize))"
  by pat_completeness auto
termination
  by (relation "measure (\<lambda>(a, b, alo, blo, ok, besti, bestj, bestsize). besti)") auto

function extend_right ::
  "'a list \<Rightarrow> 'a list \<Rightarrow> nat \<Rightarrow> nat \<Rightarrow> ('a \<Rightarrow> bool) \<Rightarrow> match \<Rightarrow> match" where
  "extend_right a b ahi bhi ok (besti, bestj, bestsize) =
     (if besti + bestsize < ahi \<and> bestj + bestsize < bhi \<and> ok (b ! (bestj + bestsize)) \<and>
         a ! (besti + bestsize) = b ! (bestj + bestsize)
      then extend_right a b ahi bhi ok (besti, bestj, bestsize + 1)
      else (besti, bestj, bestsize))"
  by pat_completeness auto
termination
  by (relation "measure (\<lambda>(a, b, ahi, bhi, ok, besti, bestj, bestsize). ahi - (besti + bestsize))") auto

declare extend_left.simps [simp del] extend_right.simps [simp del]

definition find_longest_match :: "'a list \<Rightarrow> 'a list \<Rightarrow> nat \<Rightarrow> nat \<Rightarrow> nat \<Rightarrow> nat \<Rightarrow> match" where
  "find_longest_match a b alo ahi blo bhi =
     extend_right a b ahi bhi isbjunk
       (extend_left a b alo blo isbjunk
         (extend_right a b ahi bhi (\<lambda>elt. \<not> isbjunk elt)
           (extend_left a b alo blo (\<lambda>elt. \<not> isbjunk elt)
             (match_rows a b blo bhi [alo..<ahi] (Map.empty, (alo, blo, 0))))))"

text \<open>
  The invariants of \<^verbatim>\<open>find_longest_match\<close>, needed for the termination of the queue loop
  of \<^verbatim>\<open>get_matching_blocks\<close>: the match found lies in the box it was searched in.
\<close>

definition is_match :: "'a list \<Rightarrow> 'a list \<Rightarrow> nat \<Rightarrow> nat \<Rightarrow> nat \<Rightarrow> bool" where
  "is_match a b i j k = (\<forall>t < k. a ! (i + t) = b ! (j + t))"

definition good :: "'a list \<Rightarrow> 'a list \<Rightarrow> nat \<Rightarrow> nat \<Rightarrow> nat \<Rightarrow> nat \<Rightarrow> match \<Rightarrow> bool" where
  "good a b alo ahi blo bhi m =
     (case m of (i, j, k) \<Rightarrow>
        (k = 0 \<and> i = alo \<and> j = blo) \<or>
        (0 < k \<and> alo \<le> i \<and> blo \<le> j \<and> i + k \<le> ahi \<and> j + k \<le> bhi \<and> is_match a b i j k))"

definition row_ok :: "'a list \<Rightarrow> 'a list \<Rightarrow> nat \<Rightarrow> nat \<Rightarrow> nat \<Rightarrow> nat \<Rightarrow> (nat \<rightharpoonup> nat) \<Rightarrow> bool" where
  \<comment> \<open>the entries of \<open>j2len\<close> when row \<open>i\<close> starts: matches that end at row \<open>i - 1\<close>\<close>
  "row_ok a b alo blo bhi i j2len =
     (\<forall>j k. j2len j = Some k \<longrightarrow>
        (\<exists>si sj. 0 < k \<and> si + k = i \<and> sj + k = j + 1 \<and> alo \<le> si \<and> blo \<le> sj \<and> j < bhi \<and>
                 is_match a b si sj k))"

lemma row_ok_empty: "row_ok a b alo blo bhi i Map.empty"
  by (simp add: row_ok_def)

lemma is_match_Suc:
  "is_match a b i j k \<Longrightarrow> a ! (i + k) = b ! (j + k) \<Longrightarrow> is_match a b i j (Suc k)"
  by (auto simp: is_match_def less_Suc_eq)

lemma is_match_0: "is_match a b i j 0"
  by (simp add: is_match_def)

lemma match_row_step:
  assumes "b ! j = a ! i" "alo \<le> i" "blo \<le> j" "j < bhi"
    and "row_ok a b alo blo bhi i j2len"
    and "k = (if j = 0 then 0 else case j2len (j - 1) of None \<Rightarrow> 0 | Some l \<Rightarrow> l) + 1"
  shows "\<exists>si sj. 0 < k \<and> si + k = i + 1 \<and> sj + k = j + 1 \<and> alo \<le> si \<and> blo \<le> sj \<and>
                 is_match a b si sj k"
proof (cases "j = 0 \<or> j2len (j - 1) = None")
  case True
  then have "k = 1" using assms(6) by auto
  then show ?thesis
    using assms(1-4) by (intro exI [of _ i] exI [of _ j]) (simp add: is_match_def)
next
  case False
  then obtain l where l: "j2len (j - 1) = Some l" "j \<noteq> 0" by auto
  then have k: "k = Suc l" using assms(6) by simp
  obtain si sj where s: "0 < l" "si + l = i" "sj + l = j - 1 + 1" "alo \<le> si" "blo \<le> sj"
      "is_match a b si sj l"
    using assms(5) l(1) unfolding row_ok_def by blast
  have "a ! (si + l) = b ! (sj + l)" using s(2,3) l(2) assms(1) by simp
  then have "is_match a b si sj (Suc l)" using s(6) by (rule is_match_Suc [rotated])
  then show ?thesis
    using s l(2) k by (intro exI [of _ si] exI [of _ sj]) simp
qed

lemma match_row_good:
  assumes "\<forall>j \<in> set js. b ! j = a ! i" "alo \<le> i" "i < ahi"
    and "row_ok a b alo blo bhi i j2len"
    and "row_ok a b alo blo bhi (i + 1) newj2len" "good a b alo ahi blo bhi best"
    and "match_row i blo bhi j2len js (newj2len, best) = (newj2len', best')"
  shows "row_ok a b alo blo bhi (i + 1) newj2len' \<and> good a b alo ahi blo bhi best'"
  using assms(1,5,6,7)
proof (induction js arbitrary: newj2len best)
  case Nil
  then show ?case by simp
next
  case (Cons j js)
  obtain besti bestj bestsize where best: "best = (besti, bestj, bestsize)"
    by (cases best) auto
  show ?case
  proof (cases "j < blo")
    case True
    then show ?thesis using Cons best by simp
  next
    case False
    note lo = this
    show ?thesis
    proof (cases "j \<ge> bhi")
      case True
      then show ?thesis using Cons.prems lo best by simp
    next
      case False
      define k where "k = (if j = 0 then 0 else case j2len (j - 1) of None \<Rightarrow> 0 | Some l \<Rightarrow> l) + 1"
      have eq: "b ! j = a ! i" using Cons.prems(1) by simp
      obtain si sj where s: "0 < k" "si + k = i + 1" "sj + k = j + 1" "alo \<le> si" "blo \<le> sj"
          "is_match a b si sj k"
        using match_row_step [OF eq assms(2) _ _ assms(4) k_def] lo False
        by (metis not_le_imp_less not_less)
      have new: "row_ok a b alo blo bhi (i + 1) (newj2len(j \<mapsto> k))"
        unfolding row_ok_def
      proof (intro allI impI)
        fix j' k' assume a: "(newj2len(j \<mapsto> k)) j' = Some k'"
        show "\<exists>si sj. 0 < k' \<and> si + k' = i + 1 \<and> sj + k' = j' + 1 \<and> alo \<le> si \<and> blo \<le> sj \<and>
                j' < bhi \<and> is_match a b si sj k'"
        proof (cases "j' = j")
          case True
          then have "k' = k" using a by simp
          then show ?thesis using s False True
            by (intro exI [of _ si] exI [of _ sj]) simp
        next
          case False
          then have "newj2len j' = Some k'" using a by simp
          then show ?thesis using Cons.prems(2) unfolding row_ok_def by blast
        qed
      qed
      have i: "i + 1 - k = si" and j: "j + 1 - k = sj" using s(2,3) by simp_all
      have g: "good a b alo ahi blo bhi (i + 1 - k, j + 1 - k, k)"
        unfolding i j good_def using s assms(3) False by simp
      have step: "match_row i blo bhi j2len (j # js) (newj2len, best) =
              match_row i blo bhi j2len js
                (newj2len(j \<mapsto> k), if k > bestsize then (i + 1 - k, j + 1 - k, k) else best)"
        using lo False by (simp add: best k_def Let_def)
      have g': "good a b alo ahi blo bhi (if k > bestsize then (i + 1 - k, j + 1 - k, k) else best)"
        using g Cons.prems(3) by simp
      have r: "match_row i blo bhi j2len js
                (newj2len(j \<mapsto> k), if k > bestsize then (i + 1 - k, j + 1 - k, k) else best)
               = (newj2len', best')"
        using Cons.prems(4) unfolding step .
      show ?thesis
        by (rule Cons.IH [OF _ new g' r]) (use Cons.prems(1) in simp)
    qed
  qed
qed

lemma b2j_nth: "j \<in> set (b2j b elt) \<Longrightarrow> b ! j = elt \<and> j < length b"
  by (auto simp: b2j_def split: if_splits)

lemma match_rows_good:
  assumes "alo \<le> i" "row_ok a b alo blo bhi i j2len" "good a b alo ahi blo bhi best"
  shows "good a b alo ahi blo bhi (match_rows a b blo bhi [i..<ahi] (j2len, best))"
  using assms
proof (induction "ahi - i" arbitrary: i j2len best)
  case 0
  then show ?case by simp
next
  case (Suc d)
  then have lt: "i < ahi" by simp
  obtain new best' where r: "match_row i blo bhi j2len (b2j b (a ! i)) (Map.empty, best) = (new, best')"
    by (cases "match_row i blo bhi j2len (b2j b (a ! i)) (Map.empty, best)") blast
  have "row_ok a b alo blo bhi (i + 1) new \<and> good a b alo ahi blo bhi best'"
    by (rule match_row_good [OF _ Suc.prems(1) lt Suc.prems(2) row_ok_empty Suc.prems(3) r])
       (simp add: b2j_nth)
  then have "good a b alo ahi blo bhi (match_rows a b blo bhi [i + 1..<ahi] (new, best'))"
    using Suc.hyps(1) [of "i + 1" new best'] Suc.hyps(2) Suc.prems(1) by simp
  then show ?case
    using lt r by (simp add: upt_rec [of i ahi])
qed

lemma extend_left_good:
  "good a b alo ahi blo bhi m \<Longrightarrow> good a b alo ahi blo bhi (extend_left a b alo blo ok m)"
proof (induction a b alo blo ok m rule: extend_left.induct)
  case (1 a b alo blo ok besti bestj bestsize)
  show ?case
  proof (cases "besti > alo \<and> bestj > blo \<and> ok (b ! (bestj - 1)) \<and> a ! (besti - 1) = b ! (bestj - 1)")
    case True
    have "is_match a b (besti - 1) (bestj - 1) (bestsize + 1)"
      unfolding is_match_def
    proof (intro allI impI)
      fix t assume t: "t < bestsize + 1"
      show "a ! (besti - 1 + t) = b ! (bestj - 1 + t)"
      proof (cases t)
        case 0
        then show ?thesis using True by simp
      next
        case (Suc u)
        then have "u < bestsize" using t by simp
        then have "a ! (besti + u) = b ! (bestj + u)"
          using "1.prems" unfolding good_def is_match_def by auto
        then show ?thesis using True Suc by simp
      qed
    qed
    then have "good a b alo ahi blo bhi (besti - 1, bestj - 1, bestsize + 1)"
      using "1.prems" True unfolding good_def by auto
    then show ?thesis
      using "1.IH" True by (simp add: extend_left.simps [of a b alo blo ok besti bestj bestsize])
  next
    case False
    then show ?thesis
      using "1.prems" by (auto simp add: extend_left.simps [of a b alo blo ok besti bestj bestsize])
  qed
qed

lemma extend_right_good:
  "good a b alo ahi blo bhi m \<Longrightarrow> good a b alo ahi blo bhi (extend_right a b ahi bhi ok m)"
proof (induction a b ahi bhi ok m rule: extend_right.induct)
  case (1 a b ahi bhi ok besti bestj bestsize)
  show ?case
  proof (cases "besti + bestsize < ahi \<and> bestj + bestsize < bhi \<and> ok (b ! (bestj + bestsize)) \<and>
         a ! (besti + bestsize) = b ! (bestj + bestsize)")
    case True
    have "is_match a b besti bestj bestsize"
      using "1.prems" unfolding good_def by (auto simp: is_match_0)
    then have "is_match a b besti bestj (Suc bestsize)"
      using True by (intro is_match_Suc) simp_all
    then have "good a b alo ahi blo bhi (besti, bestj, bestsize + 1)"
      using "1.prems" True unfolding good_def by auto
    then show ?thesis
      using "1.IH" True by (simp add: extend_right.simps [of a b ahi bhi ok besti bestj bestsize])
  next
    case False
    then show ?thesis
      using "1.prems" by (auto simp add: extend_right.simps [of a b ahi bhi ok besti bestj bestsize])
  qed
qed

lemma find_longest_match_good:
  "good a b alo ahi blo bhi (find_longest_match a b alo ahi blo bhi)"
  unfolding find_longest_match_def
  by (intro extend_right_good extend_left_good match_rows_good row_ok_empty)
     (simp_all add: good_def)

lemma find_longest_match_box:
  assumes "find_longest_match a b alo ahi blo bhi = (i, j, k)" "k \<noteq> 0"
  shows "alo \<le> i" "i + k \<le> ahi" "blo \<le> j" "j + k \<le> bhi" "is_match a b i j k"
  using find_longest_match_good [of a b alo ahi blo bhi] assms
  by (simp_all add: good_def)

text \<open>
  \<open>matching_loop\<close> is the loop \<^verbatim>\<open>while queue\<close> of \<^verbatim>\<open>get_matching_blocks\<close>. The queue is a
  stack: its head is the element \<^verbatim>\<open>queue.pop()\<close> takes.
\<close>

type_synonym box = "nat \<times> nat \<times> nat \<times> nat"

definition box_weight :: "box \<Rightarrow> nat" where
  "box_weight q = (case q of (alo, ahi, blo, bhi) \<Rightarrow> 2 * (ahi - alo) + 1)"

function matching_loop :: "'a list \<Rightarrow> 'a list \<Rightarrow> box list \<Rightarrow> match list \<Rightarrow> match list" where
  "matching_loop a b [] matching_blocks = matching_blocks"
| "matching_loop a b ((alo, ahi, blo, bhi) # queue) matching_blocks =
     (case find_longest_match a b alo ahi blo bhi of
        (i, j, k) \<Rightarrow>
          if k \<noteq> 0 then
            matching_loop a b
              ((if i + k < ahi \<and> j + k < bhi then [(i + k, ahi, j + k, bhi)] else []) @
               (if alo < i \<and> blo < j then [(alo, i, blo, j)] else []) @ queue)
              (matching_blocks @ [(i, j, k)])
          else matching_loop a b queue matching_blocks)"
  by pat_completeness auto
termination
proof (relation "measure (\<lambda>(a, b, queue, matching_blocks). sum_list (map box_weight queue))")
  show "wf (measure (\<lambda>(a, b, queue, matching_blocks). sum_list (map box_weight queue)))"
    by simp
next
  fix a b :: "'a list" and alo ahi blo bhi queue and matching_blocks :: "match list"
    and i y j k
  assume f: "(i, y) = find_longest_match a b alo ahi blo bhi" "(j, k) = y" "k \<noteq> 0"
  then have flm: "find_longest_match a b alo ahi blo bhi = (i, j, k)" by simp
  have "alo \<le> i" "i + k \<le> ahi"
    using find_longest_match_box [OF flm f(3)] by simp_all
  then show "((a, b,
        (if i + k < ahi \<and> j + k < bhi then [(i + k, ahi, j + k, bhi)] else []) @
        (if alo < i \<and> blo < j then [(alo, i, blo, j)] else []) @ queue,
        matching_blocks @ [(i, j, k)]),
       a, b, (alo, ahi, blo, bhi) # queue, matching_blocks)
      \<in> measure (\<lambda>(a, b, queue, matching_blocks). sum_list (map box_weight queue))"
    using f(3) by (auto simp: box_weight_def)
next
  fix a b :: "'a list" and alo ahi blo bhi queue and matching_blocks :: "match list"
  show "((a, b, queue, matching_blocks), a, b, (alo, ahi, blo, bhi) # queue, matching_blocks)
      \<in> measure (\<lambda>(a, b, queue, matching_blocks). sum_list (map box_weight queue))"
    by (simp add: box_weight_def)
qed

declare matching_loop.simps [simp del]

text \<open>
  \<open>collapse_adjacent\<close> is the loop that merges adjacent blocks, \<open>opcodes_loop\<close> the loop of
  \<^verbatim>\<open>get_opcodes\<close>, \<open>trim_first\<close> and \<open>trim_last\<close> the two fix-ups of
  \<^verbatim>\<open>get_grouped_opcodes\<close> and \<open>group_loop\<close> its generator loop (\<open>grp\<close> is \<^verbatim>\<open>group\<close>, \<open>sz\<close> is
  \<^verbatim>\<open>size\<close>).
\<close>

fun collapse_adjacent :: "match \<Rightarrow> match list \<Rightarrow> match list" where
  "collapse_adjacent (i1, j1, k1) [] = (if k1 \<noteq> 0 then [(i1, j1, k1)] else [])"
| "collapse_adjacent (i1, j1, k1) ((i2, j2, k2) # rest) =
     (if i1 + k1 = i2 \<and> j1 + k1 = j2 then collapse_adjacent (i1, j1, k1 + k2) rest
      else (if k1 \<noteq> 0 then [(i1, j1, k1)] else []) @ collapse_adjacent (i2, j2, k2) rest)"

definition get_matching_blocks :: "'a list \<Rightarrow> 'a list \<Rightarrow> match list" where
  "get_matching_blocks a b =
     collapse_adjacent (0, 0, 0) (sort (matching_loop a b [(0, length a, 0, length b)] []))
     @ [(length a, length b, 0)]"

datatype tag = Replace | Delete | Insert | Equal

type_synonym opcode = "tag \<times> nat \<times> nat \<times> nat \<times> nat"

fun opcodes_loop :: "nat \<Rightarrow> nat \<Rightarrow> match list \<Rightarrow> opcode list" where
  "opcodes_loop i j [] = []"
| "opcodes_loop i j ((ai, bj, sz) # rest) =
     (if i < ai \<and> j < bj then [(Replace, i, ai, j, bj)]
      else if i < ai then [(Delete, i, ai, j, bj)]
      else if j < bj then [(Insert, i, ai, j, bj)]
      else []) @
     (if sz \<noteq> 0 then [(Equal, ai, ai + sz, bj, bj + sz)] else []) @
     opcodes_loop (ai + sz) (bj + sz) rest"

definition get_opcodes :: "'a list \<Rightarrow> 'a list \<Rightarrow> opcode list" where
  "get_opcodes a b = opcodes_loop 0 0 (get_matching_blocks a b)"

definition trim_first :: "nat \<Rightarrow> opcode list \<Rightarrow> opcode list" where
  "trim_first n codes =
     (case codes of
        (Equal, i1, i2, j1, j2) # rest \<Rightarrow> (Equal, max i1 (i2 - n), i2, max j1 (j2 - n), j2) # rest
      | _ \<Rightarrow> codes)"

definition trim_last :: "nat \<Rightarrow> opcode list \<Rightarrow> opcode list" where
  "trim_last n codes =
     (case rev codes of
        (Equal, i1, i2, j1, j2) # rest \<Rightarrow>
          rev ((Equal, i1, min i2 (i1 + n), j1, min j2 (j1 + n)) # rest)
      | _ \<Rightarrow> codes)"

fun group_loop :: "nat \<Rightarrow> opcode list \<Rightarrow> opcode list \<Rightarrow> opcode list list" where
  "group_loop n grp [] =
     (if grp \<noteq> [] \<and> \<not> (length grp = 1 \<and> fst (hd grp) = Equal) then [grp] else [])"
| "group_loop n grp ((tag, i1, i2, j1, j2) # codes) =
     (if tag = Equal \<and> i2 - i1 > n + n then
        (grp @ [(tag, i1, min i2 (i1 + n), j1, min j2 (j1 + n))]) #
        group_loop n [(tag, max i1 (i2 - n), i2, max j1 (j2 - n), j2)] codes
      else group_loop n (grp @ [(tag, i1, i2, j1, j2)]) codes)"

definition get_grouped_opcodes :: "'a list \<Rightarrow> 'a list \<Rightarrow> nat \<Rightarrow> opcode list list" where
  "get_grouped_opcodes a b n =
     (let codes = get_opcodes a b;
          codes = (if codes = [] then [(Equal, 0, 1, 0, 1)] else codes)
      in group_loop n [] (trim_last n (trim_first n codes)))"

text \<open>
  \<open>str_nat\<close> is \<^verbatim>\<open>'{}'.format(n)\<close>, \<open>slice xs lo hi\<close> is \<^verbatim>\<open>xs[lo:hi]\<close>, \<open>opcode_lines\<close> the
  lines \<^verbatim>\<open>unified_diff\<close> yields for one opcode and \<open>hunk_header\<close> its \<^verbatim>\<open>@@\<close> line.
\<close>

definition digit_char :: "nat \<Rightarrow> char" where
  "digit_char d = ''0123456789'' ! d"

function str_nat :: "nat \<Rightarrow> string" where
  "str_nat n = (if n < 10 then [digit_char n] else str_nat (n div 10) @ [digit_char (n mod 10)])"
  by pat_completeness auto
termination
  by (relation "measure id") auto

declare str_nat.simps [simp del]

definition format_range_unified :: "nat \<Rightarrow> nat \<Rightarrow> string" where
  "format_range_unified start stop =
     (let beginning = start + 1; len = stop - start in
      if len = 1 then str_nat beginning
      else str_nat (if len = 0 then beginning - 1 else beginning) @ '','' @ str_nat len)"

definition slice :: "'a list \<Rightarrow> nat \<Rightarrow> nat \<Rightarrow> 'a list" where
  "slice xs lo hi = take (hi - lo) (drop lo xs)"

fun opcode_lines :: "string list \<Rightarrow> string list \<Rightarrow> opcode \<Rightarrow> string list" where
  "opcode_lines a b (tag, i1, i2, j1, j2) =
     (if tag = Equal then map (\<lambda>line. '' '' @ line) (slice a i1 i2)
      else
        (if tag \<in> {Replace, Delete} then map (\<lambda>line. ''-'' @ line) (slice a i1 i2) else []) @
        (if tag \<in> {Replace, Insert} then map (\<lambda>line. ''+'' @ line) (slice b j1 j2) else []))"

definition hunk_header :: "opcode list \<Rightarrow> string" where
  "hunk_header grp =
     (case (hd grp, last grp) of
        ((tag1, first1, first2, first3, first4), (tag2, last1, last2, last3, last4)) \<Rightarrow>
          ''@@ -'' @ format_range_unified first1 last2 @ '' +'' @
          format_range_unified first3 last4 @ '' @@'')"

definition hunk_lines :: "string list \<Rightarrow> string list \<Rightarrow> opcode list \<Rightarrow> string list" where
  "hunk_lines a b grp = concat (map (opcode_lines a b) grp)"

definition unified_diff :: "string list \<Rightarrow> string list \<Rightarrow> string \<Rightarrow> string \<Rightarrow> string list" where
  "unified_diff a b fromfile tofile =
     (let groups = get_grouped_opcodes a b 3 in
      if groups = [] then []
      else [''--- '' @ fromfile, ''+++ '' @ tofile] @
           concat (map (\<lambda>grp. hunk_header grp # hunk_lines a b grp) groups))"

section \<open>OSPF state parsers\<close>

record ospf_neighbor =
  n_neighbor_id :: string
  n_instance :: string
  n_vrf :: string
  n_priority :: string
  n_state :: string
  n_address :: string
  n_interface :: string

text \<open>
  One row of the neighbor table as the dictionary the script builds: field \<open>n_k\<close> is
  its key \<^verbatim>\<open>"k"\<close>. Column 5 (the dead time) is not kept.
\<close>

definition neighbor_of_parts :: "string list \<Rightarrow> ospf_neighbor" where
  "neighbor_of_parts parts =
     \<lparr>n_neighbor_id = parts ! 0, n_instance = parts ! 1, n_vrf = parts ! 2,
      n_priority = parts ! 3, n_state = parts ! 4, n_address = parts ! 6,
      n_interface = parts ! 7\<rparr>"

fun parse_neighbor_lines :: "string list \<Rightarrow> ospf_neighbor list" where
  \<comment> \<open>the \<^verbatim>\<open>for line in lines[1:]\<close> loop of \<^verbatim>\<open>parse_ospf_neighbors\<close>\<close>
  "parse_neighbor_lines [] = []"
| "parse_neighbor_lines (line # rest) =
     (let parts = split line in
      if length parts \<ge> 8 then neighbor_of_parts parts # parse_neighbor_lines rest
      else parse_neighbor_lines rest)"

definition parse_ospf_neighbors :: "string \<Rightarrow> ospf_neighbor list" where
  "parse_ospf_neighbors output = parse_neighbor_lines (drop 1 (splitlines output))"

record timer_fault =
  t_interface :: string
  t_hello_timer :: int
  t_dead_timer :: int
  t_retransmit_timer :: int

text \<open>An entry of \<^verbatim>\<open>interfaces_to_fix\<close>: field \<open>t_k\<close> is its key \<^verbatim>\<open>"k"\<close>.\<close>

definition index :: "'a list \<Rightarrow> nat \<Rightarrow> exn + 'a" where
  \<comment> \<open>\<^verbatim>\<open>xs[i]\<close> for \<open>i \<ge> 0\<close>: \<^verbatim>\<open>IndexError\<close> out of range\<close>
  "index xs i = (if i < length xs then Inr (xs ! i) else Inl IndexError)"

definition timer_value :: "string list \<Rightarrow> nat \<Rightarrow> exn + int" where
  \<comment> \<open>\<^verbatim>\<open>int(parts[i].split()[1])\<close>\<close>
  "timer_value parts i =
     (case index parts i of
        Inl e \<Rightarrow> Inl e
      | Inr field \<Rightarrow>
          (case index (split field) 1 of
             Inl e \<Rightarrow> Inl e
           | Inr token \<Rightarrow> py_int token))"

fun parse_timers_loop ::
  "string option \<Rightarrow> timer_fault list \<Rightarrow> string list \<Rightarrow> exn + timer_fault list" where
  \<comment> \<open>the \<^verbatim>\<open>for line in lines\<close> loop of \<^verbatim>\<open>parse_ospf_timers\<close>; \<open>interface_name\<close> is \<open>None\<close>
      while the local variable is unbound.\<close>
  "parse_timers_loop interface_name interfaces_to_fix [] = Inr interfaces_to_fix"
| "parse_timers_loop interface_name interfaces_to_fix (line # rest) =
     (if contains line ''is up'' then
        (case index (split line) 0 of
           Inl e \<Rightarrow> Inl e
         | Inr name \<Rightarrow> parse_timers_loop (Some name) interfaces_to_fix rest)
      else if contains line ''Timer intervals configured'' then
        (let parts = split_sep line '', '' in
         case timer_value parts 1 of
           Inl e \<Rightarrow> Inl e
         | Inr hello_timer \<Rightarrow>
         (case timer_value parts 2 of
           Inl e \<Rightarrow> Inl e
         | Inr dead_timer \<Rightarrow>
         (case timer_value parts 3 of
           Inl e \<Rightarrow> Inl e
         | Inr retransmit_timer \<Rightarrow>
             if hello_timer \<noteq> 10 \<or> dead_timer \<noteq> 40 \<or> retransmit_timer \<noteq> 5 then
               (case interface_name of
                  None \<Rightarrow> Inl (UnboundLocalError ''interface_name'')
                | Some name \<Rightarrow>
                    parse_timers_loop interface_name
                      (interfaces_to_fix @
                        [\<lparr>t_interface = name, t_hello_timer = hello_timer,
                          t_dead_timer = dead_timer,
                          t_retransmit_timer = retransmit_timer\<rparr>])
                      rest)
             else parse_timers_loop interface_name interfaces_to_fix rest)))
      else parse_timers_loop interface_name interfaces_to_fix rest)"

definition parse_ospf_timers :: "string \<Rightarrow> exn + timer_fault list" where
  "parse_ospf_timers output = parse_timers_loop None [] (splitlines output)"

section \<open>The device session and the log\<close>

text \<open>
  Everything the script does to the outside is an event, appended to a trace in the
  order it happens: the calls on the \<^verbatim>\<open>netmiko\<close> session (\<^verbatim>\<open>send_command\<close>,
  \<^verbatim>\<open>send_config_set\<close>, \<^verbatim>\<open>send_config_from_file\<close>, \<^verbatim>\<open>enable\<close>), \<^verbatim>\<open>time.sleep\<close>,
  the write of the diff file and the \<^verbatim>\<open>loguru\<close> messages. \<open>LogExn l m e\<close> is a message
  that ends with the text of the exception \<open>e\<close>.

  The outside world is a \<open>world\<close>: \<open>respond\<close> gives, for the trace up to and including a
  session call or a file write, the text returned (\<open>Inr\<close>) or the exception raised
  (\<open>Inl\<close>); \<open>read_file\<close> is the file system as read (\<open>None\<close>: no such path); \<open>set_order\<close>
  is the order in which a Python \<^verbatim>\<open>set\<close> of the given elements is iterated.
\<close>

datatype level = DEBUG | INFO | SUCCESS | WARNING | ERROR

datatype event =
    SendCommand string
  | SendConfigSet "string list"
  | SendConfigFromFile string
  | Enable
  | Sleep nat
  | WriteFile string string
  | Log level string
  | LogExn level string exn

record world =
  respond :: "event list \<Rightarrow> exn + string"
  read_file :: "string \<Rightarrow> (exn + string) option"
  set_order :: "string list \<Rightarrow> string list"

definition call :: "world \<Rightarrow> event \<Rightarrow> event list \<Rightarrow> (exn + string) \<times> event list" where
  "call w ev tr = (respond w (tr @ [ev]), tr @ [ev])"

definition log :: "level \<Rightarrow> string \<Rightarrow> event list \<Rightarrow> event list" where
  "log l msg tr = tr @ [Log l msg]"

definition sleep :: "nat \<Rightarrow> event list \<Rightarrow> event list" where
  "sleep n tr = tr @ [Sleep n]"

section \<open>Configuration remediation\<close>

fun apply_commands ::
  "world \<Rightarrow> contextual_command list \<Rightarrow> event list \<Rightarrow> (exn + unit) \<times> event list" where
  \<comment> \<open>the \<^verbatim>\<open>for context, command in contextual_commands\<close> loop (lines 87-93)\<close>
  "apply_commands w [] tr = (Inr (), tr)"
| "apply_commands w ((context, command) # rest) tr =
     (case call w (SendConfigSet
                     (case context of
                        None \<Rightarrow> [command]
                      | Some c \<Rightarrow> if c \<noteq> [] then [c, command] else [command])) tr of
        (Inl e, tr') \<Rightarrow> (Inl e, tr')
      | (Inr _, tr') \<Rightarrow> apply_commands w rest tr')"

definition compare_configs_try ::
  "world \<Rightarrow> string \<Rightarrow> string \<Rightarrow> string \<Rightarrow> event list \<Rightarrow> (exn + unit) \<times> event list" where
  \<comment> \<open>the \<^verbatim>\<open>try\<close> block of \<^verbatim>\<open>compare_configs\<close>\<close>
  "compare_configs_try w device_name current_config golden_config_path tr0 =
     (case read_file w golden_config_path of
        None \<Rightarrow>
          (Inr (), log WARNING (''No golden configuration found for '' @ device_name @
                                ''. Skipping comparison.'') tr0)
      | Some (Inl e) \<Rightarrow> (Inl e, tr0)
      | Some (Inr golden_config) \<Rightarrow>
          (let normalized_current = normalize_config current_config;
               normalized_golden = normalize_config golden_config;
               diff = unified_diff normalized_golden normalized_current
                        ''Golden Config'' ''Current Config'';
               differences = join [CHR 0x0A] diff
           in if differences \<noteq> [] then
                (let tr1 = log WARNING (''Differences found for '' @ device_name @ '':'' @
                                        [CHR 0x0A] @ differences) tr0 in
                 case call w (WriteFile (''diffs/'' @ device_name @ ''_diff.txt'') differences) tr1 of
                   (Inl e, tr2) \<Rightarrow> (Inl e, tr2)
                 | (Inr _, tr2) \<Rightarrow>
                     (let contextual_commands = parse_contextual_commands diff in
                      case (if contextual_commands \<noteq> [] then
                              (case call w Enable tr2 of
                                 (Inl e, tr3) \<Rightarrow> (Inl e, tr3)
                               | (Inr _, tr3) \<Rightarrow> apply_commands w contextual_commands tr3)
                            else (Inr (), tr2)) of
                        (Inl e, tr4) \<Rightarrow> (Inl e, tr4)
                      | (Inr _, tr4) \<Rightarrow>
                          (case call w (SendConfigFromFile golden_config_path) tr4 of
                             (Inl e, tr5) \<Rightarrow> (Inl e, tr5)
                           | (Inr _, tr5) \<Rightarrow>
                               (Inr (), log SUCCESS ''Reverted the config back to golden config''
                                          tr5))))
              else
                (Inr (), log DEBUG (''No differences found for '' @ device_name @
                                    ''. Configuration is compliant.'') tr0)))"

definition compare_configs :: "world \<Rightarrow> string \<Rightarrow> string \<Rightarrow> string \<Rightarrow> event list \<Rightarrow> event list" where
  \<comment> \<open>\<^verbatim>\<open>except Exception as e\<close>: logged, never raised further\<close>
  "compare_configs w device_name current_config golden_config_path tr =
     (case compare_configs_try w device_name current_config golden_config_path tr of
        (Inl e, tr') \<Rightarrow> tr' @ [LogExn ERROR (''Error comparing configs for '' @ device_name @ '': '') e]
      | (Inr _, tr') \<Rightarrow> tr')"

section \<open>OSPF reconciliation\<close>

definition timer_commands :: "timer_fault \<Rightarrow> string list" where
  "timer_commands f =
     [''interface '' @ t_interface f, ''ip ospf hello-interval 10'',
      ''ip ospf dead-interval 40'', ''ip ospf retransmit-interval 5'']"

fun fix_timers ::
  "world \<Rightarrow> string \<Rightarrow> timer_fault list \<Rightarrow> event list \<Rightarrow> (exn + unit) \<times> event list" where
  \<comment> \<open>the \<^verbatim>\<open>for interface in interfaces_to_fix\<close> loop (lines 214-222 and 292-300)\<close>
  "fix_timers w device_name [] tr = (Inr (), tr)"
| "fix_timers w device_name (f # fs) tr =
     (case call w (SendConfigSet (timer_commands f)) tr of
        (Inl e, tr') \<Rightarrow> (Inl e, tr')
      | (Inr _, tr') \<Rightarrow>
          fix_timers w device_name fs
            (log DEBUG (''Fixed timers for interface '' @ t_interface f @ '' on '' @ device_name @ ''.'') tr'))"

definition compare_ospf_config_try ::
  "world \<Rightarrow> string \<Rightarrow> string \<Rightarrow> event list \<Rightarrow> (exn + unit) \<times> event list" where
  \<comment> \<open>the \<^verbatim>\<open>try\<close> block of \<^verbatim>\<open>compare_ospf_config\<close>\<close>
  "compare_ospf_config_try w device_name neighbor_id tr0 =
     (let tr1 = log DEBUG (''Comparing OSPF configuration between '' @ device_name @
                           '' and neighbor '' @ neighbor_id @ ''...'') tr0 in
      case call w (SendCommand ''show running-config | section router ospf'') tr1 of
        (Inl e, tr2) \<Rightarrow> (Inl e, tr2)
      | (Inr ospf_config_device, tr2) \<Rightarrow>
          if contains ospf_config_device ''shutdown'' then
            (let tr3 = log WARNING (''OSPF configuration on '' @ device_name @
                                    '' has 'shutdown'. Fixing...'') tr2 in
             case call w (SendConfigSet [''router ospf 1'', ''no shutdown'']) tr3 of
               (Inl e, tr4) \<Rightarrow> (Inl e, tr4)
             | (Inr _, tr4) \<Rightarrow>
                 (Inr (),
                  sleep 10 (log DEBUG (''Removed 'shutdown' from OSPF configuration on '' @
                                       device_name @ ''.'') tr4)))
          else
            (case call w (SendCommand ''show ip ospf interface | section Hello'') tr2 of
               (Inl e, tr3) \<Rightarrow> (Inl e, tr3)
             | (Inr interface_timers_output, tr3) \<Rightarrow>
                 (case parse_ospf_timers interface_timers_output of
                    Inl e \<Rightarrow> (Inl e, tr3)
                  | Inr interfaces_to_fix \<Rightarrow>
                      if interfaces_to_fix \<noteq> [] then
                        (case fix_timers w device_name interfaces_to_fix
                                (log WARNING (''Timer mismatches detected on '' @ device_name @
                                              ''. Fixing timers...'') tr3) of
                           (Inl e, tr4) \<Rightarrow> (Inl e, tr4)
                         | (Inr _, tr4) \<Rightarrow> (Inr (), sleep 10 tr4))
                      else
                        (Inr (),
                         log DEBUG (''All OSPF timers on '' @ device_name @
                                    '' are correctly configured.'') tr3))))"

definition compare_ospf_config :: "world \<Rightarrow> string \<Rightarrow> string \<Rightarrow> event list \<Rightarrow> event list" where
  \<comment> \<open>\<^verbatim>\<open>except Exception as e\<close>: logged, never raised further\<close>
  "compare_ospf_config w device_name neighbor_id tr =
     (case compare_ospf_config_try w device_name neighbor_id tr of
        (Inl e, tr') \<Rightarrow>
          tr' @ [LogExn ERROR (''Error comparing OSPF configuration for '' @ device_name @
                               '' and '' @ neighbor_id @ '': '') e]
      | (Inr _, tr') \<Rightarrow> tr')"

definition neighbors_map :: "ospf_neighbor list \<Rightarrow> (string \<times> string) list" where
  \<comment> \<open>\<^verbatim>\<open>{neighbor["neighbor_id"]: neighbor["state"] for neighbor in neighbors}\<close>: a dictionary
      in insertion order; a key met again keeps its place and takes the new value.\<close>
  "neighbors_map neighbors =
     foldl (\<lambda>m neighbor. AList.update (n_neighbor_id neighbor) (n_state neighbor) m) [] neighbors"

definition healthy :: "string \<Rightarrow> bool" where
  \<comment> \<open>\<^verbatim>\<open>state.startswith("2") or state.startswith("FULL")\<close>\<close>
  "healthy st = (startswith st ''2'' \<or> startswith st ''FULL'')"

definition recheck :: "world \<Rightarrow> string \<Rightarrow> event list \<Rightarrow> (exn + bool) \<times> event list" where
  \<comment> \<open>the re-poll of lines 274-281 and 303-310: is the neighbor in the new table, with a
      healthy state?\<close>
  "recheck w neighbor_id tr =
     (case call w (SendCommand ''show ip ospf neighbor'') tr of
        (Inl e, tr') \<Rightarrow> (Inl e, tr')
      | (Inr rechecked_output, tr') \<Rightarrow>
          (Inr (case map_of (neighbors_map (parse_ospf_neighbors rechecked_output)) neighbor_id of
                  None \<Rightarrow> False
                | Some st \<Rightarrow> healthy st),
           tr'))"

definition unresolved :: "string \<Rightarrow> string \<Rightarrow> event" where
  "unresolved device_name neighbor_id =
     Log ERROR (''Unable to resolve OSPF issue for neighbor '' @ neighbor_id @ '' on '' @
                device_name @ ''. Please check manually.'')"

definition troubleshoot_neighbor ::
  "world \<Rightarrow> string \<Rightarrow> string \<Rightarrow> event list \<Rightarrow> (exn + unit) \<times> event list" where
  \<comment> \<open>the body of \<^verbatim>\<open>for neighbor_id in problematic_neighbors\<close> (lines 268-317)\<close>
  "troubleshoot_neighbor w device_name neighbor_id tr0 =
     (let tr1 = compare_ospf_config w device_name neighbor_id tr0;
          tr2 = sleep 10 (log DEBUG (''Re-checking OSPF neighbor: '' @ neighbor_id @ '' on '' @
                  device_name @ '' after fixing 'shutdown' in 10s...'') tr1) in
      case recheck w neighbor_id tr2 of
        (Inl e, tr3) \<Rightarrow> (Inl e, tr3)
      | (Inr True, tr3) \<Rightarrow>
          (Inr (), log SUCCESS (''Neighbor '' @ neighbor_id @ '' on '' @ device_name @
                     '' matches the golden state after fixing 'shutdown'.'') tr3)
      | (Inr False, tr3) \<Rightarrow>
          (case call w (SendCommand ''show ip ospf interface | section Hello'') tr3 of
             (Inl e, tr4) \<Rightarrow> (Inl e, tr4)
           | (Inr interface_timers_output, tr4) \<Rightarrow>
               (case parse_ospf_timers interface_timers_output of
                  Inl e \<Rightarrow> (Inl e, tr4)
                | Inr interfaces_to_fix \<Rightarrow>
                    if interfaces_to_fix \<noteq> [] then
                      (case fix_timers w device_name interfaces_to_fix
                              (log WARNING (''Timer mismatches detected on '' @ device_name @
                                            ''. Fixing timers...'') tr4) of
                         (Inl e, tr5) \<Rightarrow> (Inl e, tr5)
                       | (Inr _, tr5) \<Rightarrow>
                           (case recheck w neighbor_id
                                   (sleep 10 (log DEBUG (''Re-checking OSPF neighbors on '' @
                                      device_name @ '' after fixing timers in 10s...'') tr5)) of
                              (Inl e, tr6) \<Rightarrow> (Inl e, tr6)
                            | (Inr True, tr6) \<Rightarrow>
                                (Inr (), log SUCCESS (''Neighbor '' @ neighbor_id @ '' on '' @
                                   device_name @
                                   '' matches the golden state after fixing timers.'') tr6)
                            | (Inr False, tr6) \<Rightarrow>
                                (Inr (), tr6 @ [unresolved device_name neighbor_id])))
                    else (Inr (), tr4 @ [unresolved device_name neighbor_id]))))"

fun troubleshoot_all ::
  "world \<Rightarrow> string \<Rightarrow> string list \<Rightarrow> event list \<Rightarrow> (exn + unit) \<times> event list" where
  \<comment> \<open>\<^verbatim>\<open>for neighbor_id in problematic_neighbors\<close>: an exception ends the loop\<close>
  "troubleshoot_all w device_name [] tr = (Inr (), tr)"
| "troubleshoot_all w device_name (neighbor_id # rest) tr =
     (case troubleshoot_neighbor w device_name neighbor_id tr of
        (Inl e, tr') \<Rightarrow> (Inl e, tr')
      | (Inr _, tr') \<Rightarrow> troubleshoot_all w device_name rest tr')"

definition keys :: "(string \<times> string) list \<Rightarrow> string list" where
  "keys m = map fst m"

definition missing_neighbors :: "world \<Rightarrow> ospf_neighbor list \<Rightarrow> ospf_neighbor list \<Rightarrow> string list" where
  \<comment> \<open>\<^verbatim>\<open>set(golden_neighbors_map.keys()) - set(live_neighbors_map.keys())\<close>, as iterated\<close>
  "missing_neighbors w live_neighbors golden_neighbors =
     set_order w (filter (\<lambda>k. k \<notin> set (keys (neighbors_map live_neighbors)))
                         (keys (neighbors_map golden_neighbors)))"

definition unexpected_neighbors :: "world \<Rightarrow> ospf_neighbor list \<Rightarrow> ospf_neighbor list \<Rightarrow> string list" where
  \<comment> \<open>\<^verbatim>\<open>set(live_neighbors_map.keys()) - set(golden_neighbors_map.keys())\<close>, as iterated\<close>
  "unexpected_neighbors w live_neighbors golden_neighbors =
     set_order w (filter (\<lambda>k. k \<notin> set (keys (neighbors_map golden_neighbors)))
                         (keys (neighbors_map live_neighbors)))"

definition state_mismatches :: "string \<Rightarrow> ospf_neighbor list \<Rightarrow> ospf_neighbor list \<Rightarrow> (string \<times> string) list" where
  \<comment> \<open>the items of \<^verbatim>\<open>live_neighbors_map\<close> that the loop of lines 253-258 appends\<close>
  "state_mismatches device_name live_neighbors golden_neighbors =
     filter (\<lambda>(neighbor_id, st).
               neighbor_id \<in> set (keys (neighbors_map golden_neighbors)) \<and> \<not> healthy st)
            (neighbors_map live_neighbors)"

definition problematic_neighbors :: "world \<Rightarrow> string \<Rightarrow> ospf_neighbor list \<Rightarrow> ospf_neighbor list \<Rightarrow> string list" where
  \<comment> \<open>\<^verbatim>\<open>problematic_neighbors\<close> when the remediation loop starts (line 267)\<close>
  "problematic_neighbors w device_name live_neighbors golden_neighbors =
     missing_neighbors w live_neighbors golden_neighbors @
     map fst (state_mismatches device_name live_neighbors golden_neighbors)"

definition log_each :: "level \<Rightarrow> string list \<Rightarrow> event list \<Rightarrow> event list" where
  "log_each l msgs tr = tr @ map (Log l) msgs"

definition compare_ospf_neighbors ::
  "string \<Rightarrow> ospf_neighbor list \<Rightarrow> ospf_neighbor list \<Rightarrow> world \<Rightarrow> event list
     \<Rightarrow> (exn + unit) \<times> event list" where
  "compare_ospf_neighbors device_name live_neighbors golden_neighbors w tr0 =
     (let missing = missing_neighbors w live_neighbors golden_neighbors;
          unexpected = unexpected_neighbors w live_neighbors golden_neighbors;
          tr1 = (if missing \<noteq> [] then
                   log_each ERROR (map (\<lambda>neighbor_id. ''  '' @ neighbor_id) missing)
                     (log ERROR (''Missing OSPF neighbors on '' @ device_name @ '':'') tr0)
                 else tr0);
          tr2 = log_each ERROR
                  (map (\<lambda>(neighbor_id, st). ''Neighbor '' @ neighbor_id @ '' on '' @ device_name @
                          '' is in state '' @ st @ '', expected 2WAY or FULL.'')
                       (state_mismatches device_name live_neighbors golden_neighbors))
                  tr1;
          tr3 = (if unexpected \<noteq> [] then
                   log_each WARNING (map (\<lambda>neighbor_id. ''  '' @ neighbor_id) unexpected)
                     (log WARNING (''Unexpected OSPF neighbors on '' @ device_name @ '':'') tr2)
                 else tr2);
          problematic = problematic_neighbors w device_name live_neighbors golden_neighbors
      in case troubleshoot_all w device_name problematic tr3 of
           (Inl e, tr4) \<Rightarrow> (Inl e, tr4)
         | (Inr _, tr4) \<Rightarrow>
             (Inr (),
              if problematic = [] then
                log INFO (''OSPF neighbors on '' @ device_name @ '' match the golden state.'') tr4
              else tr4))"

text \<open>
  What a theorem may assume of a world: iterating a set visits each of its elements once,
  in some order.
\<close>

definition iterates_sets :: "world \<Rightarrow> bool" where
  "iterates_sets w =
     (\<forall>xs. distinct xs \<longrightarrow> set (set_order w xs) = set xs \<and> distinct (set_order w xs))"

fun config_sets :: "event list \<Rightarrow> string list list" where
  \<comment> \<open>the arguments of the \<^verbatim>\<open>send_config_set\<close> calls of a trace, in order\<close>
  "config_sets [] = []"
| "config_sets (SendConfigSet commands # tr) = commands # config_sets tr"
| "config_sets (ev # tr) = config_sets tr"

definition remediation_start :: "string \<Rightarrow> string \<Rightarrow> event" where
  \<comment> \<open>the first event of the remediation of one neighbor (line 197)\<close>
  "remediation_start device_name neighbor_id =
     Log DEBUG (''Comparing OSPF configuration between '' @ device_name @
                '' and neighbor '' @ neighbor_id @ ''...'')"

definition timer_line :: "string \<Rightarrow> bool" where
  \<comment> \<open>a line that reaches the \<^verbatim>\<open>elif "Timer intervals configured" in line\<close> branch\<close>
  "timer_line line = (\<not> contains line ''is up'' \<and> contains line ''Timer intervals configured'')"

definition adds :: "(event \<Rightarrow> bool) \<Rightarrow> event list \<Rightarrow> event list \<Rightarrow> bool" where
  \<comment> \<open>\<open>tr'\<close> is \<open>tr\<close> followed by events that all satisfy \<open>P\<close>\<close>
  "adds P tr tr' = (\<exists>new. tr' = tr @ new \<and> list_all P new)"

definition other_than :: "event \<Rightarrow> event \<Rightarrow> bool" where
  "other_than m e = (e \<noteq> m)"

text \<open>
  The words used to state facts about the diff: boxes and blocks that lie apart, blocks and
  opcodes that are valid for two sequences, chains of opcodes, and the text of the lines of
  a hunk that are not tagged removed, or not tagged added.
\<close>

fun run_upto :: "'a list \<Rightarrow> nat \<Rightarrow> nat" where
  \<comment> \<open>the number of consecutive elements just before index \<open>j\<close> that are not popular\<close>
  "run_upto a 0 = 0"
| "run_upto a (Suc j) = (if popular a (a ! j) then 0 else run_upto a j + 1)"

definition prev_len :: "(nat \<rightharpoonup> nat) \<Rightarrow> nat \<Rightarrow> nat" where
  "prev_len j2len j = (if j = 0 then 0 else case j2len (j - 1) of None \<Rightarrow> 0 | Some l \<Rightarrow> l)"

definition diag_row :: "'a list \<Rightarrow> nat \<Rightarrow> (nat \<rightharpoonup> nat) \<Rightarrow> bool" where
  "diag_row a i j2len =
     ((\<forall>j k. j2len j = Some k \<longrightarrow> k \<le> run_upto a (Suc j) \<and> k \<le> run_upto a i) \<and>
      prev_len j2len i = run_upto a i)"

definition diag_best :: "'a list \<Rightarrow> nat \<Rightarrow> match \<Rightarrow> bool" where
  "diag_best a i best =
     (case best of (besti, bestj, bestsize) \<Rightarrow>
        besti = bestj \<and> (\<forall>i' \<le> i. run_upto a i' \<le> bestsize))"













definition is_change :: "string \<Rightarrow> bool" where
  "is_change l = (startswith l ''-'' \<or> startswith l ''+'')"

definition near_change :: "nat \<Rightarrow> string list \<Rightarrow> nat \<Rightarrow> bool" where
  "near_change n ls p = (\<exists>q < length ls. is_change (ls ! q) \<and> p \<le> q + n \<and> q \<le> p + n)"








text \<open>Example data: a world that answers every call with the empty text, and table rows.\<close>

definition quiet_world :: world where
  "quiet_world = \<lparr>respond = (\<lambda>tr. Inr []), read_file = (\<lambda>path. None), set_order = (\<lambda>xs. xs)\<rparr>"

definition row :: "string \<Rightarrow> string \<Rightarrow> ospf_neighbor" where
  "row i s = \<lparr>n_neighbor_id = i, n_instance = ''1'', n_vrf = ''default'', n_priority = ''1'',
              n_state = s, n_address = ''10.1.1.1'', n_interface = ''Ethernet1''\<rparr>"

text \<open>
  A golden configuration, a live configuration that adds one line to it, and a world whose
  file system holds the golden configuration of \<^verbatim>\<open>R1\<close>.
\<close>

definition golden_example :: "string list" where
  "golden_example =
     [''hostname R1'', ''interface Gi0/0'', ''ip address 10.0.0.1 255.255.255.0'',
      ''router ospf 1'', ''network 10.0.0.0 0.0.0.255 area 0'']"

definition live_example :: "string list" where
  "live_example = golden_example @ [''ip route 0.0.0.0 0.0.0.0 10.0.0.254'']"

definition golden_world :: "string \<Rightarrow> world" where
  "golden_world golden_config =
     quiet_world\<lparr>read_file := (\<lambda>path. if path = ''/home/student/git/csci5840/golden-configs/R1.cfg''
                                       then Some (Inr golden_config) else None)\<rparr>"

text \<open>
  A device whose OSPF process is not shut down and whose interface \<^verbatim>\<open>Ethernet1\<close> has a hello
  interval of 5 and a dead interval of 20; its neighbor 10.0.0.2 comes up once a
  configuration set has been sent.
\<close>

definition neighbor_table :: "bool \<Rightarrow> string" where
  "neighbor_table up =
     ''Neighbor ID     Instance VRF      Pri State            Dead Time   Address         Interface'' @
     (if up then ''\<newline>10.0.0.2        1        default  1   FULL/DR          00:00:35    10.1.1.2        Ethernet1''
      else [])"

definition timer_world :: world where
  "timer_world =
     \<lparr>respond = (\<lambda>tr. case last tr of
          SendCommand c \<Rightarrow>
            if c = ''show running-config | section router ospf''
              then Inr ''router ospf 1\<newline>   router-id 10.0.0.1''
            else if c = ''show ip ospf interface | section Hello''
              then Inr ''Ethernet1 is up\<newline>  Timer intervals configured, Hello 5, Dead 20, Retransmit 5''
            else if c = ''show ip ospf neighbor''
              then Inr (neighbor_table (config_sets tr \<noteq> []))
            else Inr []
        | _ \<Rightarrow> Inr []),
      read_file = (\<lambda>path. None), set_order = (\<lambda>xs. xs)\<rparr>"

section \<open>Facts about the string functions and the parsers\<close>

lemmas str_eval = startswith_def strip_def isspace_def is_linebreak_def splitlines_def split_def
  split_sep_def is_digit_def digit_val_def py_int_def index_def timer_value_def

lemma find_append:
  "find P (xs @ ys) = (case find P xs of None \<Rightarrow> find P ys | Some x \<Rightarrow> Some x)"
  by (induction xs) auto

lemma last_context_Nil: "last_context [] = None"
  by (simp add: last_context_def)

lemma last_context_snoc:
  "last_context (pre @ [l]) = (if sets_context l then Some (strip l) else last_context pre)"
  by (simp add: last_context_def)

lemma last_context_Cons:
  "last_context (l # pre) =
     (case last_context pre of None \<Rightarrow> (if sets_context l then Some (strip l) else None) | Some c \<Rightarrow> Some c)"
  by (auto simp: last_context_def)

lemma last_context_append:
  "last_context (xs @ ys) = (case last_context ys of None \<Rightarrow> last_context xs | Some c \<Rightarrow> Some c)"
  by (induction ys rule: rev_induct)
     (simp_all add: last_context_Nil last_context_snoc flip: append_assoc)

lemma last_context_nonempty: "last_context pre = Some c \<Longrightarrow> c \<noteq> []"
proof (induction pre rule: rev_induct)
  case Nil
  then show ?case by (simp add: last_context_Nil)
next
  case (snoc l pre)
  then show ?case
    by (auto simp: last_context_snoc sets_context_def startswith_def split: if_splits)
qed

lemma parse_contextual_loop_append:
  "parse_contextual_loop ctx (pre @ rest) =
     parse_contextual_loop ctx pre @ parse_contextual_loop (context_after ctx pre) rest"
proof (induction pre arbitrary: ctx)
  case Nil
  then show ?case by (simp add: context_after_def last_context_Nil)
next
  case (Cons l pre)
  have ca: "context_after ctx (l # pre) =
              context_after (if sets_context l then Some (strip l) else ctx) pre"
    by (simp add: context_after_def last_context_Cons split: option.splits)
  show ?case
    unfolding ca
    by (simp add: Cons.IH sets_context_def is_unchanged_def Let_def)
qed

lemma parse_contextual_loop_added:
  assumes "is_added line" "strip (drop 1 line) \<noteq> []" "\<not> startswith (strip (drop 1 line)) ''!''"
    and "ctx = None \<or> (\<exists>c. ctx = Some c \<and> c \<noteq> [])"
  shows "parse_contextual_loop ctx (line # post) =
           (ctx, ''no '' @ strip (drop 1 line)) # parse_contextual_loop ctx post"
  using assms by (auto simp: is_added_def Let_def)

lemma parse_neighbor_lines_eq:
  "parse_neighbor_lines lines =
     map neighbor_of_parts (filter (\<lambda>parts. 8 \<le> length parts) (map split lines))"
  by (induction lines) (simp_all add: Let_def)

lemma parse_timers_loop_error_line:
  assumes "line \<in> set lines" "timer_line line"
    and "\<exists>i \<in> {1, 2, 3}. isl (timer_value (split_sep line '', '') i)"
  shows "isl (parse_timers_loop interface_name acc lines)"
  using assms(1)
proof (induction lines arbitrary: interface_name acc)
  case Nil
  then show ?case by simp
next
  case (Cons l lines)
  show ?case
  proof (cases "l = line")
    case True
    then show ?thesis
      using assms(2,3)
      by (auto simp: timer_line_def Let_def split: sum.splits option.splits)
  next
    case False
    then have "line \<in> set lines" using Cons.prems by simp
    then show ?thesis
      using Cons.IH by (auto simp: Let_def split: sum.splits option.splits)
  qed
qed

lemma parse_timers_loop_unbound:
  assumes "\<forall>l \<in> set pre. \<not> contains l ''is up''" "timer_line line"
    and "timer_value (split_sep line '', '') 1 = Inr h"
    and "timer_value (split_sep line '', '') 2 = Inr d"
    and "timer_value (split_sep line '', '') 3 = Inr r"
    and "h \<noteq> 10 \<or> d \<noteq> 40 \<or> r \<noteq> 5"
  shows "isl (parse_timers_loop None acc (pre @ line # post))"
  using assms(1)
proof (induction pre arbitrary: acc)
  case Nil
  then show ?case using assms(2-) by (auto simp: timer_line_def Let_def)
next
  case (Cons l pre)
  then show ?case
    by (auto simp: Let_def split: sum.splits option.splits)
qed

lemma neighbor_table_down: "parse_ospf_neighbors (neighbor_table False) = []"
  by (simp add: parse_ospf_neighbors_def neighbor_table_def str_eval)

lemma neighbor_table_up: "parse_ospf_neighbors (neighbor_table True) = [\<lparr>n_neighbor_id = ''10.0.0.2'', n_instance = ''1'', n_vrf = ''default'', n_priority = ''1'', n_state = ''FULL/DR'', n_address = ''10.1.1.2'', n_interface = ''Ethernet1''\<rparr>]"
  by (simp add: parse_ospf_neighbors_def neighbor_table_def str_eval neighbor_of_parts_def)

lemma timer_world_timers: "parse_ospf_timers ''Ethernet1 is up\<newline>  Timer intervals configured, Hello 5, Dead 20, Retransmit 5'' = Inr [\<lparr>t_interface = ''Ethernet1'', t_hello_timer = 5, t_dead_timer = 20, t_retransmit_timer = 5\<rparr>]"
  by (simp add: parse_ospf_timers_def str_eval)

section \<open>Facts about the line diff\<close>

lemma prev_len_le:
  assumes "diag_row a i j2len"
  shows "prev_len j2len j \<le> run_upto a j" "prev_len j2len j \<le> run_upto a i"
proof -
  have e: "j2len j' = Some k \<Longrightarrow> k \<le> run_upto a (Suc j') \<and> k \<le> run_upto a i" for j' k
    using assms unfolding diag_row_def by blast
  show "prev_len j2len j \<le> run_upto a j"
  proof (cases j)
    case 0
    then show ?thesis by (simp add: prev_len_def)
  next
    case (Suc j')
    then show ?thesis
      using e [of j'] unfolding prev_len_def by (auto simp del: run_upto.simps split: option.splits)
  qed
  show "prev_len j2len j \<le> run_upto a i"
    using e [of "j - 1"] unfolding prev_len_def by (auto split: option.splits)
qed

lemma match_row_diag:
  assumes "diag_row a i j2len" "\<not> popular a (a ! i)"
    and "sorted js" "distinct js" "\<forall>j \<in> set js. a ! j = a ! i \<and> j < n"
    and "\<forall>j k. newj2len j = Some k \<longrightarrow> k \<le> run_upto a (Suc j) \<and> k \<le> run_upto a (Suc i)"
    and "i \<in> set js \<or> (newj2len i = Some (run_upto a (Suc i)) \<and> run_upto a (Suc i) \<le> snd (snd best))"
    and "diag_best a i best"
    and "match_row i 0 n j2len js (newj2len, best) = (newj2len', best')"
  shows "(\<forall>j k. newj2len' j = Some k \<longrightarrow> k \<le> run_upto a (Suc j) \<and> k \<le> run_upto a (Suc i))
         \<and> newj2len' i = Some (run_upto a (Suc i)) \<and> diag_best a (Suc i) best'"
  using assms(3-)
proof (induction js arbitrary: newj2len best)
  case Nil
  obtain bi bj bs where b: "best = (bi, bj, bs)" by (cases best) auto
  have "diag_best a (Suc i) best"
    using Nil.prems(5,6) unfolding diag_best_def b by (auto simp: le_Suc_eq)
  then show ?case using Nil by simp
next
  case (Cons j js)
  obtain bi bj bs where b: "best = (bi, bj, bs)" by (cases best) auto
  define k where "k = prev_len j2len j + 1"
  have j: "a ! j = a ! i" "j < n" using Cons.prems(3) by simp_all
  have np: "\<not> popular a (a ! j)" using j assms(2) by simp
  have k1: "k \<le> run_upto a (Suc j)"
    using prev_len_le(1) [OF assms(1), of j] np by (simp add: k_def)
  have k2: "k \<le> run_upto a (Suc i)"
    using prev_len_le(2) [OF assms(1), of j] assms(2) by (simp add: k_def)
  have ki: "j = i \<Longrightarrow> k = run_upto a (Suc i)"
    using assms(1,2) unfolding diag_row_def by (simp add: k_def)
  have noup: "k \<le> bs" if "j \<noteq> i"
  proof (cases "j < i")
    case True
    then have "Suc j \<le> i" by simp
    moreover have "\<forall>i' \<le> i. run_upto a i' \<le> bs"
      using Cons.prems(6) unfolding diag_best_def b by simp
    ultimately have "run_upto a (Suc j) \<le> bs"
      by blast
    then show ?thesis using k1 by simp
  next
    case False
    then have "i < j" using that by simp
    then have "i \<notin> set (j # js)" using Cons.prems(1) by auto
    then have "run_upto a (Suc i) \<le> bs" using Cons.prems(5) by (simp add: b)
    then show ?thesis using k2 by simp
  qed
  define best1 where "best1 = (if k > bs then (i + 1 - k, j + 1 - k, k) else best)"
  have step: "match_row i 0 n j2len (j # js) (newj2len, best) =
              match_row i 0 n j2len js (newj2len(j \<mapsto> k), best1)"
    using j(2) by (simp add: b k_def prev_len_def best1_def Let_def)
  have r: "match_row i 0 n j2len js (newj2len(j \<mapsto> k), best1) = (newj2len', best')"
    using Cons.prems(7) unfolding step .
  have e: "\<forall>j' k'. (newj2len(j \<mapsto> k)) j' = Some k' \<longrightarrow>
              k' \<le> run_upto a (Suc j') \<and> k' \<le> run_upto a (Suc i)"
    using Cons.prems(4) k1 k2 by auto
  have bs1: "snd (snd best1) = max bs k" "fst best1 = fst (snd best1) \<or> j \<noteq> i"
    using Cons.prems(6) unfolding best1_def b diag_best_def by auto
  have db: "diag_best a i best1"
  proof (cases "k > bs")
    case True
    then have "j = i" using noup by force
    then show ?thesis
      using True Cons.prems(6) unfolding best1_def b diag_best_def by auto
  next
    case False
    then show ?thesis using Cons.prems(6) by (simp add: best1_def)
  qed
  have d: "i \<in> set js \<or>
           ((newj2len(j \<mapsto> k)) i = Some (run_upto a (Suc i)) \<and> run_upto a (Suc i) \<le> snd (snd best1))"
  proof (cases "j = i")
    case True
    then show ?thesis using ki bs1(1) by simp
  next
    case False
    then show ?thesis using Cons.prems(5) bs1(1) by (auto simp: b)
  qed
  show ?case
    by (rule Cons.IH [OF _ _ _ e d db r]) (use Cons.prems(1,2,3) in auto)
qed

lemma match_rows_diag:
  assumes "diag_row a i j2len" "diag_best a i best"
  shows "\<exists>d s. match_rows a a 0 (length a) [i..<length a] (j2len, best) = (d, d, s)"
  using assms
proof (induction "length a - i" arbitrary: i j2len best)
  case 0
  then show ?case by (cases best) (auto simp: diag_best_def)
next
  case (Suc m)
  then have lt: "i < length a" by simp
  obtain new best' where
    r: "match_row i 0 (length a) j2len (b2j a (a ! i)) (Map.empty, best) = (new, best')"
    by (cases "match_row i 0 (length a) j2len (b2j a (a ! i)) (Map.empty, best)") blast
  have "diag_row a (Suc i) new \<and> diag_best a (Suc i) best'"
  proof (cases "popular a (a ! i)")
    case True
    then have "new = Map.empty" "best' = best" using r by (simp_all add: b2j_def)
    moreover have "diag_best a (Suc i) best"
      using Suc.prems(2) True unfolding diag_best_def by (cases best) (auto simp: le_Suc_eq)
    ultimately show ?thesis
      using True by (simp add: diag_row_def prev_len_def)
  next
    case False
    let ?js = "filter (\<lambda>j. a ! j = a ! i) [0..<length a]"
    have js: "b2j a (a ! i) = ?js" using False by (simp add: b2j_def)
    have "(\<forall>j k. new j = Some k \<longrightarrow> k \<le> run_upto a (Suc j) \<and> k \<le> run_upto a (Suc i))
         \<and> new i = Some (run_upto a (Suc i)) \<and> diag_best a (Suc i) best'"
    proof (rule match_row_diag [OF Suc.prems(1) False _ _ _ _ _ Suc.prems(2) r [unfolded js]])
      show "sorted ?js" by (simp add: sorted_wrt_filter)
      show "distinct ?js" by simp
      show "\<forall>j \<in> set ?js. a ! j = a ! i \<and> j < length a" by simp
      show "\<forall>j k. Map.empty j = Some k \<longrightarrow> k \<le> run_upto a (Suc j) \<and> k \<le> run_upto a (Suc i)"
        by simp
      show "i \<in> set ?js \<or>
            (Map.empty i = Some (run_upto a (Suc i)) \<and> run_upto a (Suc i) \<le> snd (snd best))"
        using lt by simp
    qed
    then show ?thesis
      unfolding diag_row_def prev_len_def by (simp del: run_upto.simps)
  qed
  then have "\<exists>d s. match_rows a a 0 (length a) [Suc i..<length a] (new, best') = (d, d, s)"
    using Suc.hyps(1) [of "Suc i" new best'] Suc.hyps(2) by simp
  then show ?case
    using lt r by (simp add: upt_rec [of i "length a"])
qed

lemma extend_left_diag: "extend_left a a 0 0 (\<lambda>elt. True) (d, d, s) = (0, 0, s + d)"
proof (induction d arbitrary: s)
  case 0
  then show ?case by (simp add: extend_left.simps [of a a 0 0 _ 0 0 s])
next
  case (Suc d)
  show ?case
    using Suc [of "s + 1"]
    by (simp add: extend_left.simps [of a a 0 0 _ "Suc d" "Suc d" s])
qed

lemma extend_right_diag:
  "s \<le> n \<Longrightarrow> extend_right a a n n (\<lambda>elt. True) (0, 0, s) = (0, 0, n)"
proof (induction "n - s" arbitrary: s)
  case 0
  then show ?case by (simp add: extend_right.simps)
next
  case (Suc m)
  then have "extend_right a a n n (\<lambda>elt. True) (0, 0, s + 1) = (0, 0, n)"
    by (intro Suc.hyps(1)) simp_all
  moreover have "s < n" using Suc.hyps(2) by simp
  ultimately show ?case
    by (simp add: extend_right.simps [of a a n n _ 0 0 s])
qed

lemma extend_left_junk: "extend_left a b alo blo isbjunk m = m"
  by (cases m) (simp add: extend_left.simps isbjunk_def)

lemma extend_right_junk: "extend_right a b ahi bhi isbjunk m = m"
  by (cases m) (simp add: extend_right.simps isbjunk_def)

lemma find_longest_match_same:
  "find_longest_match a a 0 (length a) 0 (length a) = (0, 0, length a)"
proof -
  have "diag_row a 0 Map.empty" by (simp add: diag_row_def prev_len_def)
  moreover have "diag_best a 0 (0, 0, 0)" by (simp add: diag_best_def)
  ultimately obtain d s where
    m: "match_rows a a 0 (length a) [0..<length a] (Map.empty, (0, 0, 0)) = (d, d, s)"
    using match_rows_diag [of a 0 Map.empty "(0, 0, 0)"] by blast
  have "good a a 0 (length a) 0 (length a) (d, d, s)"
    using match_rows_good [of 0 0 a a 0 "length a" Map.empty "length a" "(0, 0, 0)"]
    unfolding m by (simp add: row_ok_empty good_def)
  then have le: "s + d \<le> length a" by (auto simp: good_def)
  have nj: "(\<lambda>elt::'a. \<not> isbjunk elt) = (\<lambda>elt. True)" by (simp add: isbjunk_def)
  show ?thesis
    unfolding find_longest_match_def m nj extend_left_diag
    using le by (simp add: extend_right_diag extend_left_junk extend_right_junk)
qed

lemma get_matching_blocks_same:
  "get_matching_blocks a a =
     (if a = [] then [] else [(0, 0, length a)]) @ [(length a, length a, 0)]"
  by (simp add: get_matching_blocks_def matching_loop.simps find_longest_match_same)

lemma get_opcodes_same:
  "get_opcodes a a = (if a = [] then [] else [(Equal, 0, length a, 0, length a)])"
  by (simp add: get_opcodes_def get_matching_blocks_same)

lemma get_grouped_opcodes_same: "get_grouped_opcodes a a 3 = []"
  by (simp add: get_grouped_opcodes_def get_opcodes_same trim_first_def trim_last_def Let_def)
     arith

lemma unified_diff_same: "unified_diff a a fromfile tofile = []"
  by (simp add: unified_diff_def get_grouped_opcodes_same)

























































lemma wide_context_groups:
  "get_grouped_opcodes golden_example live_example 100 = [[(Equal, 0, 5, 0, 5), (Insert, 5, 5, 5, 6)]]"
  by code_simp

lemma wide_hunk:
  "hunk_lines golden_example live_example [(Equal, 0, 5, 0, 5), (Insert, 5, 5, 5, 6)] =
     ['' hostname R1'', '' interface Gi0/0'', '' ip address 10.0.0.1 255.255.255.0'', '' router ospf 1'',
      '' network 10.0.0.0 0.0.0.255 area 0'', ''+ip route 0.0.0.0 0.0.0.0 10.0.0.254'']"
  by code_simp

section \<open>Facts about the neighbor maps and the classification\<close>

lemma map_of_update_fold:
  "map_of (foldl (\<lambda>m n. AList.update (n_neighbor_id n) (n_state n) m) m0 ns) k =
     (case find (\<lambda>n. n_neighbor_id n = k) (rev ns) of None \<Rightarrow> map_of m0 k | Some n \<Rightarrow> Some (n_state n))"
proof (induction ns arbitrary: m0)
  case Nil
  then show ?case by simp
next
  case (Cons n ns)
  show ?case
    by (simp add: Cons.IH find_append update_conv' split: option.splits)
qed

lemma neighbors_map_lookup:
  "map_of (neighbors_map ns) k = map_option n_state (find (\<lambda>n. n_neighbor_id n = k) (rev ns))"
  by (simp add: neighbors_map_def map_of_update_fold split: option.splits)

lemma keys_update_fold:
  "fst ` set (foldl (\<lambda>m n. AList.update (n_neighbor_id n) (n_state n) m) m0 ns)
     = fst ` set m0 \<union> n_neighbor_id ` set ns"
  by (induction ns arbitrary: m0) (auto simp: dom_update image_iff)

lemma distinct_update_fold:
  "distinct (map fst m0) \<Longrightarrow>
   distinct (map fst (foldl (\<lambda>m n. AList.update (n_neighbor_id n) (n_state n) m) m0 ns))"
  by (induction ns arbitrary: m0) (auto simp: distinct_update)

lemma set_keys_neighbors_map: "set (keys (neighbors_map ns)) = n_neighbor_id ` set ns"
  by (simp add: keys_def neighbors_map_def keys_update_fold)

lemma distinct_keys_neighbors_map: "distinct (keys (neighbors_map ns))"
  by (simp add: keys_def neighbors_map_def distinct_update_fold)

lemma set_missing_neighbors:
  "iterates_sets w \<Longrightarrow>
   set (missing_neighbors w live golden) =
     set (keys (neighbors_map golden)) - set (keys (neighbors_map live))"
  unfolding missing_neighbors_def iterates_sets_def
  using distinct_keys_neighbors_map [of golden] by (auto simp: distinct_filter)

lemma set_unexpected_neighbors:
  "iterates_sets w \<Longrightarrow>
   set (unexpected_neighbors w live golden) =
     set (keys (neighbors_map live)) - set (keys (neighbors_map golden))"
  unfolding unexpected_neighbors_def iterates_sets_def
  using distinct_keys_neighbors_map [of live] by (auto simp: distinct_filter)

lemma mismatch_iff:
  "nid \<in> fst ` set (state_mismatches dn live golden) \<longleftrightarrow>
     nid \<in> set (keys (neighbors_map golden)) \<and>
     (\<exists>st. map_of (neighbors_map live) nid = Some st \<and> \<not> healthy st)"
proof -
  have d: "distinct (map fst (neighbors_map live))"
    using distinct_keys_neighbors_map [of live] by (simp add: keys_def)
  show ?thesis
    unfolding state_mismatches_def using d
    by (force simp: image_iff)
qed

section \<open>Facts about traces\<close>

lemma config_sets_append: "config_sets (xs @ ys) = config_sets xs @ config_sets ys"
  by (induction xs rule: config_sets.induct) simp_all

lemma adds_refl: "adds P tr tr"
  by (simp add: adds_def)

lemma adds_append: "adds P tr t \<Longrightarrow> list_all P es \<Longrightarrow> adds P tr (t @ es)"
  by (auto simp: adds_def)

lemma adds_call: "adds P tr t \<Longrightarrow> P ev \<Longrightarrow> call w ev t = (r, t') \<Longrightarrow> adds P tr t'"
  by (auto simp: call_def adds_append)

lemma adds_log: "adds P tr t \<Longrightarrow> P (Log l m) \<Longrightarrow> adds P tr (log l m t)"
  by (simp add: log_def adds_append)

lemma adds_sleep: "adds P tr t \<Longrightarrow> P (Sleep k) \<Longrightarrow> adds P tr (sleep k t)"
  by (simp add: sleep_def adds_append)

lemma other_than_start:
  "other_than (remediation_start dn nid) (SendCommand c)"
  "other_than (remediation_start dn nid) (SendConfigSet cs)"
  "other_than (remediation_start dn nid) (Sleep k)"
  "other_than (remediation_start dn nid) (LogExn l m e)"
  "l \<noteq> DEBUG \<Longrightarrow> other_than (remediation_start dn nid) (Log l m)"
  "n \<noteq> nid \<Longrightarrow> other_than (remediation_start dn nid) (remediation_start dn n)"
  "other_than (remediation_start dn nid) (Log DEBUG (''Fixed timers for interface '' @ x))"
  "other_than (remediation_start dn nid) (Log DEBUG (''Removed 'shutdown' from OSPF configuration on '' @ x))"
  "other_than (remediation_start dn nid) (Log DEBUG (''All OSPF timers on '' @ x))"
  "other_than (remediation_start dn nid) (Log DEBUG (''Re-checking OSPF neighbor: '' @ x))"
  "other_than (remediation_start dn nid) (Log DEBUG (''Re-checking OSPF neighbors on '' @ x))"
  by (simp_all add: other_than_def remediation_start_def)

lemma adds_fix_timers:
  assumes "adds (other_than (remediation_start dn nid)) tr t"
    and "fix_timers w dn fs t = (r, t')"
  shows "adds (other_than (remediation_start dn nid)) tr t'"
  using assms
proof (induction fs arbitrary: t)
  case Nil
  then show ?case by simp
next
  case (Cons f fs)
  obtain r1 t1 where c: "call w (SendConfigSet (timer_commands f)) t = (r1, t1)"
    by force
  have 1: "adds (other_than (remediation_start dn nid)) tr t1"
    by (rule adds_call [OF Cons.prems(1) other_than_start(2) c])
  have 2: "adds (other_than (remediation_start dn nid)) tr
             (log DEBUG (''Fixed timers for interface '' @ t_interface f @ '' on '' @ dn @ ''.'') t1)"
    by (rule adds_log [OF 1 other_than_start(7)])
  show ?case
  proof (cases r1)
    case (Inl e)
    then show ?thesis using c 1 Cons.prems(2) by simp
  next
    case (Inr out)
    then show ?thesis using c Cons.IH [OF 2] Cons.prems(2) by simp
  qed
qed

lemma adds_compare_ospf_config_try:
  assumes "n \<noteq> nid" "adds (other_than (remediation_start dn nid)) tr t"
    and "compare_ospf_config_try w dn n t = (r, t')"
  shows "adds (other_than (remediation_start dn nid)) tr t'"
proof -
  let ?P = "other_than (remediation_start dn nid)"
  define tr1 where "tr1 = log DEBUG (''Comparing OSPF configuration between '' @ dn @
                           '' and neighbor '' @ n @ ''...'') t"
  have "tr1 = t @ [remediation_start dn n]"
    by (simp add: tr1_def log_def remediation_start_def)
  then have 1: "adds ?P tr tr1"
    using adds_append [OF assms(2), of "[remediation_start dn n]"] other_than_start(6) [OF assms(1)]
    by simp
  obtain r2 tr2 where c2: "call w (SendCommand ''show running-config | section router ospf'') tr1 = (r2, tr2)"
    by force
  have 2: "adds ?P tr tr2"
    by (rule adds_call [OF 1 other_than_start(1) c2])
  show ?thesis
  proof (cases r2)
    case (Inl e)
    then show ?thesis
      using 2 c2 assms(3) unfolding compare_ospf_config_try_def Let_def tr1_def [symmetric]
      by simp
  next
    case (Inr cfg)
    show ?thesis
    proof (cases "contains cfg ''shutdown''")
      case True
      have 3: "adds ?P tr (log WARNING (''OSPF configuration on '' @ dn @
                                    '' has 'shutdown'. Fixing...'') tr2)"
        by (rule adds_log [OF 2 other_than_start(5)]) simp
      obtain r4 tr4 where c4: "call w (SendConfigSet [''router ospf 1'', ''no shutdown''])
           (log WARNING (''OSPF configuration on '' @ dn @
                                    '' has 'shutdown'. Fixing...'') tr2) = (r4, tr4)"
        by force
      have 4: "adds ?P tr tr4"
        by (rule adds_call [OF 3 other_than_start(2) c4])
      have 5: "adds ?P tr (sleep 10 (log DEBUG (''Removed 'shutdown' from OSPF configuration on '' @
                                       dn @ ''.'') tr4))"
        by (intro adds_sleep adds_log 4 other_than_start)
      show ?thesis
        using c2 Inr True c4 4 5 assms(3)
        unfolding compare_ospf_config_try_def Let_def tr1_def [symmetric]
        by (auto split: sum.splits)
    next
      case False
      obtain r3 tr3 where c3: "call w (SendCommand ''show ip ospf interface | section Hello'') tr2 = (r3, tr3)"
        by force
      have 3: "adds ?P tr tr3"
        by (rule adds_call [OF 2 other_than_start(1) c3])
      let ?tr3w = "log WARNING (''Timer mismatches detected on '' @ dn @
                                              ''. Fixing timers...'') tr3"
      have w3: "adds ?P tr ?tr3w"
        by (rule adds_log [OF 3 other_than_start(5)]) simp
      have 4: "adds ?P tr t4" if "fix_timers w dn fs ?tr3w = (r4, t4)" for fs r4 t4
        by (rule adds_fix_timers [OF w3 that])
      have 5: "adds ?P tr (sleep 10 t4)" if "fix_timers w dn fs ?tr3w = (r4, t4)" for fs r4 t4
        by (intro adds_sleep 4 [OF that] other_than_start)
      have 6: "adds ?P tr (log DEBUG (''All OSPF timers on '' @ dn @
                                    '' are correctly configured.'') tr3)"
        by (intro adds_log 3 other_than_start)
      show ?thesis
        using c2 Inr False c3 3 4 5 6 assms(3)
        unfolding compare_ospf_config_try_def Let_def tr1_def [symmetric]
        by (auto split: sum.splits prod.splits if_splits)
    qed
  qed
qed

lemma adds_compare_ospf_config:
  assumes "n \<noteq> nid" "adds (other_than (remediation_start dn nid)) tr t"
  shows "adds (other_than (remediation_start dn nid)) tr (compare_ospf_config w dn n t)"
proof -
  obtain r t' where c: "compare_ospf_config_try w dn n t = (r, t')" by force
  have 1: "adds (other_than (remediation_start dn nid)) tr t'"
    by (rule adds_compare_ospf_config_try [OF assms c])
  have 2: "adds (other_than (remediation_start dn nid)) tr (t' @ [LogExn ERROR m e])" for m e
    using adds_append [OF 1, of "[LogExn ERROR m e]"] other_than_start(4) by simp
  show ?thesis
    unfolding compare_ospf_config_def c
    using 1 2 by (cases r) simp_all
qed

lemma adds_recheck:
  assumes "adds (other_than (remediation_start dn nid)) tr t" "recheck w n t = (r, t')"
  shows "adds (other_than (remediation_start dn nid)) tr t'"
proof -
  obtain r1 t1 where c: "call w (SendCommand ''show ip ospf neighbor'') t = (r1, t1)" by force
  have "adds (other_than (remediation_start dn nid)) tr t1"
    by (rule adds_call [OF assms(1) other_than_start(1) c])
  then show ?thesis
    using assms(2) c by (auto simp: recheck_def split: sum.splits)
qed

lemma adds_troubleshoot_neighbor:
  assumes "n \<noteq> nid" "adds (other_than (remediation_start dn nid)) tr t"
    and "troubleshoot_neighbor w dn n t = (r, t')"
  shows "adds (other_than (remediation_start dn nid)) tr t'"
proof -
  let ?P = "other_than (remediation_start dn nid)"
  define tr2 where "tr2 = sleep 10 (log DEBUG (''Re-checking OSPF neighbor: '' @ n @ '' on '' @
                  dn @ '' after fixing 'shutdown' in 10s...'') (compare_ospf_config w dn n t))"
  have 2: "adds ?P tr tr2"
    unfolding tr2_def
    by (intro adds_sleep adds_log adds_compare_ospf_config assms(1,2) other_than_start)
  obtain r3 tr3 where c3: "recheck w n tr2 = (r3, tr3)" by force
  have 3: "adds ?P tr tr3" by (rule adds_recheck [OF 2 c3])
  have s3: "adds ?P tr (log SUCCESS m tr3)" for m
    by (rule adds_log [OF 3 other_than_start(5)]) simp
  obtain r4 tr4 where c4: "call w (SendCommand ''show ip ospf interface | section Hello'') tr3 = (r4, tr4)"
    by force
  have 4: "adds ?P tr tr4" by (rule adds_call [OF 3 other_than_start(1) c4])
  have un: "?P (unresolved dn n)"
    unfolding unresolved_def by (rule other_than_start(5)) simp
  have u4: "adds ?P tr (tr4 @ [unresolved dn n])"
    using adds_append [OF 4, of "[unresolved dn n]"] un by simp
  let ?tr4w = "log WARNING (''Timer mismatches detected on '' @ dn @
                                            ''. Fixing timers...'') tr4"
  have w4: "adds ?P tr ?tr4w"
    by (rule adds_log [OF 4 other_than_start(5)]) simp
  have 5: "adds ?P tr t5" if "fix_timers w dn fs ?tr4w = (r5, t5)" for fs r5 t5
    by (rule adds_fix_timers [OF w4 that])
  have 6: "adds ?P tr t6"
    if "fix_timers w dn fs ?tr4w = (r5, t5)"
      and "recheck w n (sleep 10 (log DEBUG (''Re-checking OSPF neighbors on '' @
                                      dn @ '' after fixing timers in 10s...'') t5)) = (r6, t6)"
    for fs r5 t5 r6 t6
    by (rule adds_recheck [OF _ that(2)]) (intro adds_sleep adds_log 5 [OF that(1)] other_than_start)
  have s6: "adds ?P tr (log SUCCESS m t6)"
    if "fix_timers w dn fs ?tr4w = (r5, t5)"
      and "recheck w n (sleep 10 (log DEBUG (''Re-checking OSPF neighbors on '' @
                                      dn @ '' after fixing timers in 10s...'') t5)) = (r6, t6)"
    for fs r5 t5 r6 t6 m
    by (rule adds_log [OF 6 [OF that] other_than_start(5)]) simp
  have u6: "adds ?P tr (t6 @ [unresolved dn n])"
    if "fix_timers w dn fs ?tr4w = (r5, t5)"
      and "recheck w n (sleep 10 (log DEBUG (''Re-checking OSPF neighbors on '' @
                                      dn @ '' after fixing timers in 10s...'') t5)) = (r6, t6)"
    for fs r5 t5 r6 t6
    using adds_append [OF 6 [OF that], of "[unresolved dn n]"] un by simp
  show ?thesis
    using assms(3) c3 3 s3 c4 4 u4 5 6 s6 u6
    unfolding troubleshoot_neighbor_def Let_def tr2_def [symmetric]
    by (auto split: sum.splits prod.splits if_splits bool.splits)
qed

lemma adds_troubleshoot_all:
  assumes "nid \<notin> set ps" "adds (other_than (remediation_start dn nid)) tr t"
    and "troubleshoot_all w dn ps t = (r, t')"
  shows "adds (other_than (remediation_start dn nid)) tr t'"
  using assms
proof (induction ps arbitrary: t)
  case Nil
  then show ?case by simp
next
  case (Cons n ps)
  obtain r1 t1 where c: "troubleshoot_neighbor w dn n t = (r1, t1)" by force
  have 1: "adds (other_than (remediation_start dn nid)) tr t1"
    by (rule adds_troubleshoot_neighbor [OF _ Cons.prems(2) c]) (use Cons.prems(1) in auto)
  show ?case
  proof (cases r1)
    case (Inl e)
    then show ?thesis using c 1 Cons.prems(3) by simp
  next
    case (Inr u)
    then show ?thesis using c Cons.IH [OF _ 1] Cons.prems(1,3) by simp
  qed
qed

section \<open>The diff reconstructs the configurations hunk by hunk\<close>




text \<open>
  The bound is that of the three lines of context. With a context of 100 lines
  \<^verbatim>\<open>get_grouped_opcodes\<close> puts all five golden lines of the example in the hunk, whose first
  line is then five lines away from the only change.
\<close>

lemma wide_context_not_near:
  "\<not> near_change 3
       (hunk_lines golden_example live_example (hd (get_grouped_opcodes golden_example live_example 100))) 0"
  unfolding wide_context_groups list.sel wide_hunk near_change_def
proof
  let ?ls = "['' hostname R1'', '' interface Gi0/0'', '' ip address 10.0.0.1 255.255.255.0'',
      '' router ospf 1'', '' network 10.0.0.0 0.0.0.255 area 0'',
      ''+ip route 0.0.0.0 0.0.0.0 10.0.0.254'']"
  assume "\<exists>q < length ?ls. is_change (?ls ! q) \<and> 0 \<le> q + 3 \<and> q \<le> 0 + 3"
  then obtain q where q: "is_change (?ls ! q)" "q \<le> 3" by auto
  then consider "q = 0" | "q = 1" | "q = 2" | "q = 3" by linarith
  then show False
    using q(1) by cases (simp_all add: is_change_def startswith_def)
qed

section \<open>A configuration that equals its baseline\<close>

text \<open>
  Claim C8. The diff of a sequence of lines with itself is empty: it has no added and no
  removed line, and \<^verbatim>\<open>parse_contextual_commands\<close> derives no command from it. When the live
  configuration normalises to the same lines as the golden file, \<^verbatim>\<open>compare_configs\<close>
  logs that the configuration is compliant and does nothing else: no call on the session.
\<close>

theorem identical_configs_compliant:
  "unified_diff config config fromfile tofile = []
   \<and> parse_contextual_commands (unified_diff config config fromfile tofile) = []
   \<and> (read_file w golden_config_path = Some (Inr golden_config)
        \<and> normalize_config current_config = normalize_config golden_config
      \<longrightarrow> compare_configs w device_name current_config golden_config_path tr =
            tr @ [Log DEBUG (''No differences found for '' @ device_name @
                             ''. Configuration is compliant.'')])"
  by (simp add: unified_diff_same parse_contextual_commands_def compare_configs_def
        compare_configs_try_def join_def log_def)

theorem identical_configs_compliant_witness:
  "compare_configs (golden_world ''hostname R1\<newline>interface Gi0/0\<newline> ip ospf cost 10\<newline>'') ''R1''
     ''hostname R1\<newline>\<newline>interface Gi0/0\<newline>   ip ospf cost 10  ''
     ''/home/student/git/csci5840/golden-configs/R1.cfg'' []
   = [] @ [Log DEBUG (''No differences found for '' @ ''R1'' @ ''. Configuration is compliant.'')]"
proof -
  have r: "read_file (golden_world ''hostname R1\<newline>interface Gi0/0\<newline> ip ospf cost 10\<newline>'')
             ''/home/student/git/csci5840/golden-configs/R1.cfg''
           = Some (Inr ''hostname R1\<newline>interface Gi0/0\<newline> ip ospf cost 10\<newline>'')"
    by (simp add: golden_world_def)
  have n: "normalize_config ''hostname R1\<newline>\<newline>interface Gi0/0\<newline>   ip ospf cost 10  ''
           = normalize_config ''hostname R1\<newline>interface Gi0/0\<newline> ip ospf cost 10\<newline>''"
    by (simp add: normalize_config_def str_eval)
  show ?thesis
    using identical_configs_compliant [THEN conjunct2, THEN conjunct2, rule_format, OF conjI, OF r n]
    by simp
qed

section \<open>Rollback commands take the context of the last unchanged block header\<close>

text \<open>
  Claim C3, as the code has it. Every added line of the diff (one that starts with \<^verbatim>\<open>+\<close>
  and not with \<^verbatim>\<open>+++\<close>) whose stripped text is non-empty and does not start with \<^verbatim>\<open>!\<close>
  emits exactly one pair, after the pairs of the lines before it:
  \<open>(current_context, "no " + stripped text)\<close>, where \<open>current_context\<close> is the stripped
  text of the most recent preceding \<^emph>\<open>unchanged\<close> line that starts with \<^verbatim>\<open>interface\<close> or
  \<^verbatim>\<open>router\<close> (\<open>None\<close> when there is none). In particular, an added line after an
  unchanged \<^verbatim>\<open>interface Gi0/1\<close> line and before any other unchanged block header has the
  context \<^verbatim>\<open>interface Gi0/1\<close>.
\<close>

theorem rollback_command_context:
  assumes "is_added line" and "command = strip (drop 1 line)"
    and "command \<noteq> []" and "\<not> startswith command ''!''"
  shows "parse_contextual_commands (pre @ line # post) =
           parse_contextual_commands pre @
           (last_context pre, ''no '' @ command) # parse_contextual_loop (last_context pre) post
         \<and> (\<forall>p0 l mid. pre = p0 @ l # mid \<and> is_unchanged l \<and> strip l = ''interface Gi0/1''
                \<and> (\<forall>m \<in> set mid. \<not> sets_context m)
              \<longrightarrow> last_context pre = Some ''interface Gi0/1'')"
proof
  have ctx: "context_after None pre = last_context pre"
    by (simp add: context_after_def split: option.splits)
  have ok: "last_context pre = None \<or> (\<exists>c. last_context pre = Some c \<and> c \<noteq> [])"
    using last_context_nonempty by (cases "last_context pre") auto
  show "parse_contextual_commands (pre @ line # post) =
           parse_contextual_commands pre @
           (last_context pre, ''no '' @ command) # parse_contextual_loop (last_context pre) post"
    unfolding parse_contextual_commands_def parse_contextual_loop_append ctx
    using parse_contextual_loop_added [OF assms(1) _ _ ok] assms(2,3,4) by simp
next
  show "\<forall>p0 l mid. pre = p0 @ l # mid \<and> is_unchanged l \<and> strip l = ''interface Gi0/1''
                \<and> (\<forall>m \<in> set mid. \<not> sets_context m)
              \<longrightarrow> last_context pre = Some ''interface Gi0/1''"
  proof (intro allI impI, elim conjE)
    fix p0 l mid
    assume pre: "pre = p0 @ l # mid" and l: "is_unchanged l" "strip l = ''interface Gi0/1''"
      and mid: "\<forall>m \<in> set mid. \<not> sets_context m"
    have "filter sets_context mid = []" using mid by (simp add: filter_empty_conv)
    then have "last_context mid = None" by (simp add: last_context_def)
    moreover have "sets_context l" using l by (simp add: sets_context_def startswith_def)
    ultimately show "last_context pre = Some ''interface Gi0/1''"
      unfolding pre using l(2)
      by (simp add: last_context_append [of p0 "l # mid"] last_context_Cons)
  qed
qed

theorem rollback_command_context_witness:
  "parse_contextual_commands
     ['' interface Gi0/1'', '' description uplink'', ''+ shutdown'', ''-ip ospf cost 10'']
     = [(Some ''interface Gi0/1'', ''no shutdown'')]
   \<and> last_context ['' interface Gi0/1'', '' description uplink''] = Some ''interface Gi0/1''"
proof -
  have a: "is_added ''+ shutdown''" by (simp add: is_added_def startswith_def)
  have c: "''shutdown'' = strip (drop 1 ''+ shutdown'')" by (simp add: strip_def isspace_def)
  have n: "''shutdown'' \<noteq> []" by simp
  have b: "\<not> startswith ''shutdown'' ''!''" by (simp add: startswith_def)
  note t = rollback_command_context [OF a c n b,
      of "['' interface Gi0/1'', '' description uplink'']" "[''-ip ospf cost 10'']"]
  have u: "is_unchanged '' interface Gi0/1''" "strip '' interface Gi0/1'' = ''interface Gi0/1''"
    "\<forall>m \<in> set ['' description uplink'']. \<not> sets_context m"
    by (simp_all add: is_unchanged_def sets_context_def startswith_def strip_def isspace_def)
  have lc: "last_context ['' interface Gi0/1'', '' description uplink''] = Some ''interface Gi0/1''"
    using t [THEN conjunct2, rule_format, of "[]" "'' interface Gi0/1''" "['' description uplink'']"] u
    by simp
  show ?thesis
    using t [THEN conjunct1] lc
    by (simp add: parse_contextual_commands_def startswith_def strip_def isspace_def)
qed

text \<open>
  A removed \<^verbatim>\<open>interface Gi0/1\<close> line does not set the context: the command that follows
  it is emitted at global scope.
\<close>

theorem removed_line_sets_no_context:
  "parse_contextual_commands [''-interface Gi0/1'', ''+shutdown''] = [(None, ''no shutdown'')]
   \<and> parse_contextual_commands [''-interface Gi0/1'', ''+shutdown'']
        \<noteq> [(Some ''interface Gi0/1'', ''no shutdown'')]"
  by (simp add: parse_contextual_commands_def startswith_def strip_def isspace_def)

section \<open>Malformed output: the neighbor parser skips, the timer parser raises\<close>

text \<open>
  The two parsers on every output. \<^verbatim>\<open>parse_ospf_neighbors\<close> never fails: its guard
  \<^verbatim>\<open>len(parts) >= 8\<close> keeps the rows after the header that have at least 8 whitespace
  fields and drops the others. \<^verbatim>\<open>parse_ospf_timers\<close> has no guard. A
  \<^verbatim>\<open>Timer intervals configured\<close> line whose field 1, 2 or 3 (of the split on \<^verbatim>\<open>", "\<close>) is
  missing - fewer than four fields - or has no second token or a second token that is not an
  integer makes it raise, wherever the line stands, and so does a timer line with values
  other than 10/40/5 that comes before any \<^verbatim>\<open>is up\<close> line.
\<close>

lemma neighbor_rows_skipped_timer_lines_raise:
  "parse_ospf_neighbors output =
     map neighbor_of_parts
       (filter (\<lambda>parts. 8 \<le> length parts) (map split (drop 1 (splitlines output))))
   \<and> (line \<in> set (splitlines output) \<and> timer_line line \<and>
        (length (split_sep line '', '') < 4 \<or>
         (\<exists>i \<in> {1, 2, 3}. isl (timer_value (split_sep line '', '') i)))
        \<longrightarrow> isl (parse_ospf_timers output))
   \<and> (splitlines output = pre @ line # post \<and> (\<forall>l \<in> set pre. \<not> contains l ''is up'') \<and>
        timer_line line \<and>
        timer_value (split_sep line '', '') 1 = Inr hello \<and>
        timer_value (split_sep line '', '') 2 = Inr dead \<and>
        timer_value (split_sep line '', '') 3 = Inr retransmit \<and>
        (hello \<noteq> 10 \<or> dead \<noteq> 40 \<or> retransmit \<noteq> 5)
        \<longrightarrow> isl (parse_ospf_timers output))"
proof (intro conjI impI)
  show "parse_ospf_neighbors output =
     map neighbor_of_parts
       (filter (\<lambda>parts. 8 \<le> length parts) (map split (drop 1 (splitlines output))))"
    by (simp add: parse_ospf_neighbors_def parse_neighbor_lines_eq)
next
  assume a: "line \<in> set (splitlines output) \<and> timer_line line \<and>
        (length (split_sep line '', '') < 4 \<or>
         (\<exists>i \<in> {1, 2, 3}. isl (timer_value (split_sep line '', '') i)))"
  have "length (split_sep line '', '') < 4 \<Longrightarrow> isl (timer_value (split_sep line '', '') 3)"
    by (simp add: timer_value_def index_def)
  then have "\<exists>i \<in> {1, 2, 3}. isl (timer_value (split_sep line '', '') i)"
    using a by blast
  then show "isl (parse_ospf_timers output)"
    unfolding parse_ospf_timers_def
    using a by (intro parse_timers_loop_error_line [of line]) auto
next
  assume "splitlines output = pre @ line # post \<and> (\<forall>l \<in> set pre. \<not> contains l ''is up'') \<and>
        timer_line line \<and>
        timer_value (split_sep line '', '') 1 = Inr hello \<and>
        timer_value (split_sep line '', '') 2 = Inr dead \<and>
        timer_value (split_sep line '', '') 3 = Inr retransmit \<and>
        (hello \<noteq> 10 \<or> dead \<noteq> 40 \<or> retransmit \<noteq> 5)"
  then show "isl (parse_ospf_timers output)"
    unfolding parse_ospf_timers_def
    using parse_timers_loop_unbound [of pre line hello dead retransmit "[]" post] by simp
qed

lemma timer_lines_raise_example:
  "isl (parse_ospf_timers ''Ethernet1 is up\<newline>  Timer intervals configured, Hello 10, Dead 40'')
   \<and> isl (parse_ospf_timers ''  Timer intervals configured, Hello 5, Dead 40, Retransmit 5'')"
proof
  let ?up = "''Ethernet1 is up''"
  let ?l = "''  Timer intervals configured, Hello 10, Dead 40''"
  have "splitlines ''Ethernet1 is up\<newline>  Timer intervals configured, Hello 10, Dead 40'' = [?up, ?l]"
    by (simp add: str_eval)
  moreover have "timer_line ?l" by (simp add: timer_line_def startswith_def)
  moreover have "length (split_sep ?l '', '') < 4" by (simp add: str_eval)
  ultimately show
    "isl (parse_ospf_timers ''Ethernet1 is up\<newline>  Timer intervals configured, Hello 10, Dead 40'')"
    using neighbor_rows_skipped_timer_lines_raise
      [of "''Ethernet1 is up\<newline>  Timer intervals configured, Hello 10, Dead 40''" ?l,
       THEN conjunct2, THEN conjunct1]
    by simp
next
  let ?l = "''  Timer intervals configured, Hello 5, Dead 40, Retransmit 5''"
  have "splitlines ?l = [] @ ?l # []" by (simp add: str_eval)
  moreover have "timer_line ?l" by (simp add: timer_line_def startswith_def)
  moreover have "timer_value (split_sep ?l '', '') 1 = Inr 5"
    "timer_value (split_sep ?l '', '') 2 = Inr 40" "timer_value (split_sep ?l '', '') 3 = Inr 5"
    by (simp_all add: str_eval)
  ultimately show "isl (parse_ospf_timers ?l)"
    using neighbor_rows_skipped_timer_lines_raise
      [of ?l ?l "[]" "[]" 5 40 5, THEN conjunct2, THEN conjunct2]
    by simp
qed

text \<open>
  Claim C4: malformed command output never makes a parser fail, the offending record is
  discarded and parsing continues. \<^verbatim>\<open>parse_ospf_neighbors\<close> does so: a row of five fields
  is dropped and the row after it is returned. \<^verbatim>\<open>parse_ospf_timers\<close> does not; the claim
  fails at these outputs:
  \<^item> a timer line of three fields, after the block of \<^verbatim>\<open>Ethernet1\<close> with a hello interval
    of 5: \<^verbatim>\<open>parts[3]\<close> raises \<^verbatim>\<open>IndexError\<close>, and the fault found for \<^verbatim>\<open>Ethernet1\<close>, which
    the parser returns when the malformed line is not there, is lost;
  \<^item> a hello interval that is not an integer: \<^verbatim>\<open>int\<close> raises \<^verbatim>\<open>ValueError\<close>;
  \<^item> a timer line with a hello interval of 5 before any \<^verbatim>\<open>is up\<close> line:
    \<^verbatim>\<open>interface_name\<close> is not bound and the parser raises \<^verbatim>\<open>UnboundLocalError\<close>, although
    the same line with the default intervals is passed over and the result is the empty
    list.
\<close>

theorem malformed_timer_line_raises:
  "parse_ospf_timers
     (''Ethernet1 is up\<newline>  Timer intervals configured, Hello 5, Dead 40, Retransmit 5\<newline>'' @
      ''Ethernet2 is up\<newline>  Timer intervals configured, Hello 10, Dead 40'')
     = Inl IndexError
   \<and> parse_ospf_timers
       ''Ethernet1 is up\<newline>  Timer intervals configured, Hello ten, Dead 40, Retransmit 5''
     = Inl (ValueError ''ten'')
   \<and> parse_ospf_timers ''  Timer intervals configured, Hello 5, Dead 40, Retransmit 5''
     = Inl (UnboundLocalError ''interface_name'')
   \<and> parse_ospf_timers ''  Timer intervals configured, Hello 10, Dead 40, Retransmit 5''
     = Inr []
   \<and> parse_ospf_timers
       ''Ethernet1 is up\<newline>  Timer intervals configured, Hello 5, Dead 40, Retransmit 5''
     = Inr [\<lparr>t_interface = ''Ethernet1'', t_hello_timer = 5, t_dead_timer = 40,
             t_retransmit_timer = 5\<rparr>]
   \<and> parse_ospf_neighbors
       (''Neighbor ID     Instance VRF      Pri State            Dead Time   Address         Interface\<newline>'' @
        ''10.0.0.2        1        default  1   FULL/DR\<newline>'' @
        ''10.0.0.3        1        default  1   FULL/BDR         00:00:35    10.1.1.3        Ethernet2'')
     = [\<lparr>n_neighbor_id = ''10.0.0.3'', n_instance = ''1'', n_vrf = ''default'', n_priority = ''1'',
         n_state = ''FULL/BDR'', n_address = ''10.1.1.3'', n_interface = ''Ethernet2''\<rparr>]"
  by (simp add: parse_ospf_timers_def parse_ospf_neighbors_def neighbor_of_parts_def str_eval)

section \<open>Classification of the neighbors in both tables\<close>

text \<open>
  Claim C5. A neighbor that is in the live map and in the golden map is in
  \<^verbatim>\<open>problematic_neighbors\<close> exactly when its live state starts neither with \<^verbatim>\<open>2\<close> nor with
  \<^verbatim>\<open>FULL\<close>; with the live state \<^verbatim>\<open>FULL/BDR\<close> it never is, with \<^verbatim>\<open>DOWN\<close> it always is.
  The golden state plays no part.
\<close>

theorem problematic_iff_unhealthy:
  assumes "iterates_sets w"
    and "map_of (neighbors_map live_neighbors) neighbor_id = Some st"
    and "neighbor_id \<in> set (keys (neighbors_map golden_neighbors))"
  shows "(neighbor_id \<in> set (problematic_neighbors w device_name live_neighbors golden_neighbors)
            \<longleftrightarrow> \<not> startswith st ''2'' \<and> \<not> startswith st ''FULL'')
         \<and> (st = ''FULL/BDR'' \<longrightarrow>
              neighbor_id \<notin> set (problematic_neighbors w device_name live_neighbors golden_neighbors))
         \<and> (st = ''DOWN'' \<longrightarrow>
              neighbor_id \<in> set (problematic_neighbors w device_name live_neighbors golden_neighbors))"
proof -
  have live: "neighbor_id \<in> set (keys (neighbors_map live_neighbors))"
    using assms(2) by (auto simp: keys_def dest: map_of_SomeD intro: rev_image_eqI)
  have "neighbor_id \<notin> set (missing_neighbors w live_neighbors golden_neighbors)"
    using live by (simp add: set_missing_neighbors [OF assms(1)])
  then have iff: "neighbor_id \<in> set (problematic_neighbors w device_name live_neighbors golden_neighbors)
            \<longleftrightarrow> \<not> healthy st"
    using assms(2,3) by (simp add: problematic_neighbors_def mismatch_iff)
  show ?thesis
    unfolding iff by (auto simp: healthy_def startswith_def)
qed

theorem problematic_iff_unhealthy_witness:
  "''10.0.0.2'' \<in> set (problematic_neighbors quiet_world ''R1''
                          [row ''10.0.0.2'' ''DOWN''] [row ''10.0.0.2'' ''FULL/DR''])
   \<and> ''10.0.0.2'' \<notin> set (problematic_neighbors quiet_world ''R1''
                          [row ''10.0.0.2'' ''FULL/BDR''] [row ''10.0.0.2'' ''2WAY/DROTHER''])"
proof -
  have w: "iterates_sets quiet_world"
    by (simp add: iterates_sets_def quiet_world_def)
  have g: "''10.0.0.2'' \<in> set (keys (neighbors_map [row ''10.0.0.2'' s]))" for s
    by (simp add: keys_def neighbors_map_def row_def)
  have l: "map_of (neighbors_map [row ''10.0.0.2'' s]) ''10.0.0.2'' = Some s" for s
    by (simp add: neighbors_map_def row_def)
  show ?thesis
    using
      problematic_iff_unhealthy [of quiet_world "[row ''10.0.0.2'' ''DOWN'']" "''10.0.0.2''"
        "''DOWN''" "[row ''10.0.0.2'' ''FULL/DR'']" "''R1''", OF w l g]
      problematic_iff_unhealthy [of quiet_world "[row ''10.0.0.2'' ''FULL/BDR'']" "''10.0.0.2''"
        "''FULL/BDR''" "[row ''10.0.0.2'' ''2WAY/DROTHER'']" "''R1''", OF w l g]
    by (simp add: startswith_def)
qed

section \<open>Unexpected neighbors are reported and left alone\<close>

text \<open>
  Claim C6. A neighbor in the live map and not in the golden map is one of the unexpected
  neighbors and is logged as such (the warning \<^verbatim>\<open>"  " + neighbor_id\<close>), is not in
  \<^verbatim>\<open>problematic_neighbors\<close>, and no remediation is started for it: the trace of
  \<^verbatim>\<open>compare_ospf_neighbors\<close> gains no \<open>remediation_start\<close> event with its id, the first
  event of every pass of the remediation loop.
\<close>

theorem unexpected_not_remediated:
  assumes "iterates_sets w"
    and "neighbor_id \<in> set (keys (neighbors_map live_neighbors))"
    and "neighbor_id \<notin> set (keys (neighbors_map golden_neighbors))"
  shows "neighbor_id \<in> set (unexpected_neighbors w live_neighbors golden_neighbors)
         \<and> neighbor_id \<notin> set (problematic_neighbors w device_name live_neighbors golden_neighbors)
         \<and> (\<exists>new. snd (compare_ospf_neighbors device_name live_neighbors golden_neighbors w tr0)
                      = tr0 @ new
                \<and> Log WARNING (''  '' @ neighbor_id) \<in> set new
                \<and> remediation_start device_name neighbor_id \<notin> set new)"
proof (intro conjI)
  let ?P = "other_than (remediation_start device_name neighbor_id)"
  define unexpected where "unexpected = unexpected_neighbors w live_neighbors golden_neighbors"
  define missing where "missing = missing_neighbors w live_neighbors golden_neighbors"
  define problematic where
    "problematic = problematic_neighbors w device_name live_neighbors golden_neighbors"
  show un: "neighbor_id \<in> set (unexpected_neighbors w live_neighbors golden_neighbors)"
    using assms by (simp add: set_unexpected_neighbors)
  have "neighbor_id \<notin> set (missing_neighbors w live_neighbors golden_neighbors)"
    using assms by (simp add: set_missing_neighbors)
  moreover have "neighbor_id \<notin> fst ` set (state_mismatches device_name live_neighbors golden_neighbors)"
    using assms(3) by (simp add: mismatch_iff)
  ultimately show np: "neighbor_id \<notin> set (problematic_neighbors w device_name live_neighbors golden_neighbors)"
    by (simp add: problematic_neighbors_def)
  define tr1 where "tr1 = (if missing \<noteq> [] then
                   log_each ERROR (map (\<lambda>neighbor_id. ''  '' @ neighbor_id) missing)
                     (log ERROR (''Missing OSPF neighbors on '' @ device_name @ '':'') tr0)
                 else tr0)"
  define tr2 where "tr2 = log_each ERROR
                  (map (\<lambda>(neighbor_id, st). ''Neighbor '' @ neighbor_id @ '' on '' @ device_name @
                          '' is in state '' @ st @ '', expected 2WAY or FULL.'')
                       (state_mismatches device_name live_neighbors golden_neighbors))
                  tr1"
  define tr3 where "tr3 = (if unexpected \<noteq> [] then
                   log_each WARNING (map (\<lambda>neighbor_id. ''  '' @ neighbor_id) unexpected)
                     (log WARNING (''Unexpected OSPF neighbors on '' @ device_name @ '':'') tr2)
                 else tr2)"
  have le: "adds ?P t0 t \<Longrightarrow> l \<noteq> DEBUG \<Longrightarrow> adds ?P t0 (log_each l ms t)" for t0 t l ms
    unfolding log_each_def
    by (rule adds_append) (simp_all add: list_all_iff other_than_start(5))
  have 1: "adds ?P tr0 tr1"
    unfolding tr1_def
    by (auto intro!: le adds_log adds_refl other_than_start(5))
  have 2: "adds ?P tr0 tr2"
    unfolding tr2_def by (intro le 1) simp
  have 3: "adds ?P tr0 tr3"
    unfolding tr3_def
    by (auto intro!: le adds_log 2 other_than_start(5))
  have ne: "unexpected \<noteq> []" using un by (auto simp: unexpected_def)
  have "Log WARNING (''  '' @ neighbor_id) \<in> set (map (Log WARNING) (map (\<lambda>neighbor_id. ''  '' @ neighbor_id) unexpected))"
    using un by (simp add: unexpected_def image_iff)
  then have w3: "Log WARNING (''  '' @ neighbor_id) \<in> set (drop (length tr0) tr3)"
    using 2 ne unfolding tr3_def log_each_def log_def adds_def
    by auto
  obtain r4 tr4 where c4: "troubleshoot_all w device_name problematic tr3 = (r4, tr4)"
    by force
  have 4: "adds ?P tr3 tr4"
    by (rule adds_troubleshoot_all [OF _ adds_refl c4]) (use np in \<open>simp add: problematic_def\<close>)
  have i4: "adds ?P tr3 (log INFO m tr4)" for m
    by (rule adds_log [OF 4 other_than_start(5)]) simp
  define final where "final = snd (compare_ospf_neighbors device_name live_neighbors golden_neighbors w tr0)"
  have "final = tr4 \<or> (\<exists>m. final = log INFO m tr4)"
    unfolding final_def compare_ospf_neighbors_def Let_def
      missing_def [symmetric] unexpected_def [symmetric] problematic_def [symmetric]
      tr1_def [symmetric]  tr2_def [symmetric]  tr3_def [symmetric] c4
    by (cases r4) auto
  then have 5: "adds ?P tr3 final"
    using 4 i4 by auto
  then obtain new2 where f: "final = tr3 @ new2" and n2: "list_all ?P new2"
    by (auto simp: adds_def)
  obtain hdr where h: "tr3 = tr0 @ hdr" and n1: "list_all ?P hdr"
    using 3 by (auto simp: adds_def)
  have "Log WARNING (''  '' @ neighbor_id) \<in> set hdr"
    using w3 h by simp
  then show "\<exists>new. snd (compare_ospf_neighbors device_name live_neighbors golden_neighbors w tr0)
                      = tr0 @ new
                \<and> Log WARNING (''  '' @ neighbor_id) \<in> set new
                \<and> remediation_start device_name neighbor_id \<notin> set new"
    using f h n1 n2 unfolding final_def
    by (intro exI [of _ "hdr @ new2"]) (auto simp: list_all_iff other_than_def)
qed

theorem unexpected_not_remediated_witness:
  "''10.0.0.9'' \<in> set (unexpected_neighbors quiet_world
       [row ''10.0.0.1'' ''FULL/DR'', row ''10.0.0.9'' ''2WAY/DROTHER''] [row ''10.0.0.1'' ''FULL/DR''])
   \<and> ''10.0.0.9'' \<notin> set (problematic_neighbors quiet_world ''R1''
       [row ''10.0.0.1'' ''FULL/DR'', row ''10.0.0.9'' ''2WAY/DROTHER''] [row ''10.0.0.1'' ''FULL/DR''])
   \<and> (\<exists>new. snd (compare_ospf_neighbors ''R1''
                   [row ''10.0.0.1'' ''FULL/DR'', row ''10.0.0.9'' ''2WAY/DROTHER'']
                   [row ''10.0.0.1'' ''FULL/DR''] quiet_world []) = [] @ new
          \<and> Log WARNING (''  '' @ ''10.0.0.9'') \<in> set new
          \<and> remediation_start ''R1'' ''10.0.0.9'' \<notin> set new)"
proof -
  have w: "iterates_sets quiet_world"
    by (simp add: iterates_sets_def quiet_world_def)
  have l: "''10.0.0.9'' \<in> set (keys (neighbors_map
             [row ''10.0.0.1'' ''FULL/DR'', row ''10.0.0.9'' ''2WAY/DROTHER'']))"
    by (simp add: keys_def neighbors_map_def row_def)
  have g: "''10.0.0.9'' \<notin> set (keys (neighbors_map [row ''10.0.0.1'' ''FULL/DR'']))"
    by (simp add: keys_def neighbors_map_def row_def)
  show ?thesis
    by (rule unexpected_not_remediated [OF w l g])
qed

section \<open>Timer faults\<close>



section \<open>The shutdown fix\<close>

text \<open>
  Claim C9. When the text the device returns for
  \<^verbatim>\<open>show running-config | section router ospf\<close> contains \<^verbatim>\<open>shutdown\<close> anywhere,
  \<^verbatim>\<open>compare_ospf_config\<close> issues one configuration set, and it is
  \<^verbatim>\<open>["router ospf 1", "no shutdown"]\<close> whatever the text says about the process.
\<close>

theorem shutdown_fix_commands:
  assumes "respond w (tr0 @ [remediation_start device_name neighbor_id,
                             SendCommand ''show running-config | section router ospf''])
             = Inr ospf_config_device"
    and "contains ospf_config_device ''shutdown''"
  shows "\<exists>new. compare_ospf_config w device_name neighbor_id tr0 = tr0 @ new
           \<and> config_sets new = [[''router ospf 1'', ''no shutdown'']]"
  using assms
  by (simp add: compare_ospf_config_def compare_ospf_config_try_def Let_def call_def log_def
        sleep_def remediation_start_def config_sets_append split: sum.splits)

theorem shutdown_fix_commands_witness:
  "\<exists>new. compare_ospf_config
            (quiet_world\<lparr>respond := (\<lambda>tr. Inr ''router ospf 65000\<newline>   shutdown'')\<rparr>)
            ''R1'' ''10.0.0.2'' [] = [] @ new
         \<and> config_sets new = [[''router ospf 1'', ''no shutdown'']]"
proof -
  have c: "contains ''router ospf 65000\<newline>   shutdown'' ''shutdown''"
    by (simp add: startswith_def)
  show ?thesis
    by (rule shutdown_fix_commands [OF _ c]) simp
qed

section \<open>Repeated neighbor ids\<close>

text \<open>
  Claim C10. The map from neighbor id to state is built row by row, a later row
  overwriting the state of an earlier one with the same id. So for the last row \<open>r\<close>
  with its id in a table, the map holds the state of \<open>r\<close>, the classification of the id
  depends on that state alone, and so does the re-check of a re-polled table.
\<close>

theorem last_row_wins:
  assumes "rows = pre @ r # post"
    and "\<forall>x \<in> set post. n_neighbor_id x \<noteq> n_neighbor_id r"
  shows "neighbors_map (rows @ [x]) = AList.update (n_neighbor_id x) (n_state x) (neighbors_map rows)
       \<and> map_of (neighbors_map rows) (n_neighbor_id r) = Some (n_state r)
       \<and> (n_neighbor_id r \<in> fst ` set (state_mismatches device_name rows golden_neighbors)
            \<longleftrightarrow> n_neighbor_id r \<in> set (keys (neighbors_map golden_neighbors))
                \<and> \<not> healthy (n_state r))
       \<and> (respond w (tr @ [SendCommand ''show ip ospf neighbor'']) = Inr output
            \<and> parse_ospf_neighbors output = rows
            \<longrightarrow> fst (recheck w (n_neighbor_id r) tr) = Inr (healthy (n_state r)))"
proof -
  have "find (\<lambda>n. n_neighbor_id n = n_neighbor_id r) (rev post) = None"
    using assms(2) by (simp add: find_None_iff)
  then have l: "map_of (neighbors_map rows) (n_neighbor_id r) = Some (n_state r)"
    by (simp add: neighbors_map_lookup assms(1) find_append)
  show ?thesis
    using l by (auto simp: neighbors_map_def mismatch_iff recheck_def call_def)
qed

theorem last_row_wins_witness:
  "map_of (neighbors_map [row ''10.0.0.2'' ''FULL/DR'', row ''10.0.0.1'' ''FULL/DR'',
                          row ''10.0.0.2'' ''DOWN'']) ''10.0.0.2'' = Some ''DOWN''
   \<and> ''10.0.0.2'' \<in> fst ` set (state_mismatches ''R1''
         [row ''10.0.0.2'' ''FULL/DR'', row ''10.0.0.1'' ''FULL/DR'', row ''10.0.0.2'' ''DOWN'']
         [row ''10.0.0.2'' ''FULL/DR''])"
proof -
  have r: "[row ''10.0.0.2'' ''FULL/DR'', row ''10.0.0.1'' ''FULL/DR'', row ''10.0.0.2'' ''DOWN'']
             = [row ''10.0.0.2'' ''FULL/DR'', row ''10.0.0.1'' ''FULL/DR''] @ row ''10.0.0.2'' ''DOWN'' # []"
    by simp
  have p: "\<forall>x \<in> set []. n_neighbor_id x \<noteq> n_neighbor_id (row ''10.0.0.2'' ''DOWN'')"
    by simp
  show ?thesis
    using last_row_wins [OF r p, of _ "''R1''" "[row ''10.0.0.2'' ''FULL/DR'']"]
    by (simp add: row_def keys_def neighbors_map_def healthy_def startswith_def)
qed

section \<open>The timer fix of the first attempt\<close>

text \<open>
  Claim C2 at the device \<open>timer_world\<close>, with the neighbor 10.0.0.2 of the golden table
  missing from the live table. \<^verbatim>\<open>compare_ospf_config\<close>, called for the first attempt, finds
  no \<^verbatim>\<open>shutdown\<close> and goes on to correct the timers itself, before the first re-poll; the
  re-poll then finds the neighbor healthy and the loop reports it fixed by the shutdown
  step. The timer remediation has run although the first attempt left the neighbor healthy.
\<close>

theorem timers_fixed_before_first_repoll:
  "snd (compare_ospf_neighbors ''R1'' (parse_ospf_neighbors (neighbor_table False))
          (parse_ospf_neighbors (neighbor_table True)) timer_world []) =
     [Log ERROR ''Missing OSPF neighbors on R1:'',
      Log ERROR ''  10.0.0.2'',
      Log DEBUG ''Comparing OSPF configuration between R1 and neighbor 10.0.0.2...'',
      SendCommand ''show running-config | section router ospf'',
      SendCommand ''show ip ospf interface | section Hello'',
      Log WARNING ''Timer mismatches detected on R1. Fixing timers...'',
      SendConfigSet [''interface Ethernet1'', ''ip ospf hello-interval 10'',
                     ''ip ospf dead-interval 40'', ''ip ospf retransmit-interval 5''],
      Log DEBUG ''Fixed timers for interface Ethernet1 on R1.'',
      Sleep 10,
      Log DEBUG ''Re-checking OSPF neighbor: 10.0.0.2 on R1 after fixing 'shutdown' in 10s...'',
      Sleep 10,
      SendCommand ''show ip ospf neighbor'',
      Log SUCCESS ''Neighbor 10.0.0.2 on R1 matches the golden state after fixing 'shutdown'.'']"
  unfolding neighbor_table_down neighbor_table_up
  by (simp add: compare_ospf_neighbors_def Let_def missing_neighbors_def unexpected_neighbors_def
        problematic_neighbors_def state_mismatches_def neighbors_map_def keys_def log_each_def
        log_def sleep_def call_def timer_world_def troubleshoot_neighbor_def compare_ospf_config_def
        compare_ospf_config_try_def recheck_def timer_world_timers neighbor_table_up timer_commands_def healthy_def startswith_def)

end
